theory Spec2Isabelle
  imports Complex_Main
begin

section \<open>Timestamps and keys\<close>

text \<open>
  A \<open>time.Time\<close> is modelled by the instant it denotes, an integer count of nanoseconds.
  \<open>time.After\<close> compares instants and is strict.
\<close>

type_synonym time = int

definition After :: "time \<Rightarrow> time \<Rightarrow> bool" where
  "After t u \<longleftrightarrow> u < t"

text \<open>\<open>rsa.PublicKey\<close>: the modulus and the public exponent.\<close>

record PublicKey =
  N :: int
  E :: int

section \<open>The user record (package users)\<close>

record keyRecord =
  Key :: PublicKey
  UpdatedAt :: time

record booleanRecord =
  Ok :: bool
  UpdatedAt :: time

record channelPermissionsRecord =
  Add :: booleanRecord
  UpdatedAt :: time

record userPermissionsRecord =
  Add :: booleanRecord
  Remove :: booleanRecord
  EncKeyUpdate :: booleanRecord
  SignKeyUpdate :: booleanRecord
  PermissionsUpdate :: booleanRecord
  UpdatedAt :: time

record permissionsRecord =
  Channel :: channelPermissionsRecord
  User :: userPermissionsRecord
  UpdatedAt :: time

record userRecord =
  Id :: string
  EncKey :: keyRecord
  SignKey :: keyRecord
  Permissions :: permissionsRecord
  Active :: booleanRecord
  CreatedAt :: time
  UpdatedAt :: time

subsection \<open>The update request\<close>

text \<open>
  Modelled from the spec: the declaration of \<open>UserRequest\<close> is not among the sources; the
  records below hold exactly the members that \<open>applyUpdateRequest\<close> reads. The request
  carries one candidate value per field and a single timestamp. The two key objects are
  pointers in the source (\<open>*req.Data.encKeyObject\<close>), so they are optional here and
  \<open>None\<close> is the nil pointer.
\<close>

record UserPermissionsObject =
  Add :: bool
  Remove :: bool
  EncKeyUpdate :: bool
  SignKeyUpdate :: bool
  PermissionsUpdate :: bool

record ChannelPermissionsObject =
  Add :: bool

record PermissionsObject =
  Channel :: ChannelPermissionsObject
  User :: UserPermissionsObject

record UserObject =
  Active :: bool
  encKeyObject :: "PublicKey option"
  signKeyObject :: "PublicKey option"
  Permissions :: PermissionsObject

record UserRequest =
  FieldsUpdated :: "string list"
  Data :: UserObject
  Timestamp :: time

subsection \<open>Leaf updates\<close>

text \<open>
  Both \<open>update\<close> methods mutate their receiver and return whether they did; the model
  returns the flag together with the receiver after the call.
\<close>

definition booleanRecord_update :: "booleanRecord \<Rightarrow> bool \<Rightarrow> time \<Rightarrow> bool \<times> booleanRecord" where
  "booleanRecord_update perm val time =
     (if After time (booleanRecord.UpdatedAt perm)
      then (True, perm\<lparr>Ok := val, booleanRecord.UpdatedAt := time\<rparr>)
      else (False, perm))"

definition keyRecord_update :: "keyRecord \<Rightarrow> PublicKey \<Rightarrow> time \<Rightarrow> bool \<times> keyRecord" where
  "keyRecord_update keyRec val time =
     (if After time (keyRecord.UpdatedAt keyRec)
      then (True, keyRec\<lparr>Key := val, keyRecord.UpdatedAt := time\<rparr>)
      else (False, keyRec))"

subsection \<open>Applying an update request\<close>

text \<open>
  The function returns nothing and has no error result. The only way it can fail is the
  run-time panic of dereferencing a nil pointer: \<open>*req.Data.encKeyObject\<close> and
  \<open>*req.Data.signKeyObject\<close> are evaluated before \<open>update\<close> is called.
\<close>

datatype panic = NilPointerDereference

text \<open>
  The inner switch of the user-permission case takes the address of one of the five
  boolean fields; \<open>userPermissionRef\<close> is that address, \<open>None\<close> the nil pointer the
  variable \<open>perm\<close> starts with.
\<close>

datatype userPermissionRef = RefAdd | RefRemove | RefEncKeyUpdate | RefSignKeyUpdate | RefPermissionsUpdate

fun deref :: "userPermissionRef \<Rightarrow> userPermissionsRecord \<Rightarrow> booleanRecord" where
  "deref RefAdd u = userPermissionsRecord.Add u"
| "deref RefRemove u = userPermissionsRecord.Remove u"
| "deref RefEncKeyUpdate u = userPermissionsRecord.EncKeyUpdate u"
| "deref RefSignKeyUpdate u = userPermissionsRecord.SignKeyUpdate u"
| "deref RefPermissionsUpdate u = userPermissionsRecord.PermissionsUpdate u"

fun assign :: "userPermissionRef \<Rightarrow> booleanRecord \<Rightarrow> userPermissionsRecord \<Rightarrow> userPermissionsRecord" where
  "assign RefAdd b u = u\<lparr>userPermissionsRecord.Add := b\<rparr>"
| "assign RefRemove b u = u\<lparr>userPermissionsRecord.Remove := b\<rparr>"
| "assign RefEncKeyUpdate b u = u\<lparr>userPermissionsRecord.EncKeyUpdate := b\<rparr>"
| "assign RefSignKeyUpdate b u = u\<lparr>userPermissionsRecord.SignKeyUpdate := b\<rparr>"
| "assign RefPermissionsUpdate b u = u\<lparr>userPermissionsRecord.PermissionsUpdate := b\<rparr>"

definition userPermissionSwitch :: "string \<Rightarrow> UserPermissionsObject \<Rightarrow> userPermissionRef option \<times> bool" where
  "userPermissionSwitch field reqUser =
     (if field = ''permissions.user.add'' then (Some RefAdd, UserPermissionsObject.Add reqUser)
      else if field = ''permissions.user.remove'' then (Some RefRemove, UserPermissionsObject.Remove reqUser)
      else if field = ''permissions.user.encKeyUpdate''
        then (Some RefEncKeyUpdate, UserPermissionsObject.EncKeyUpdate reqUser)
      else if field = ''permissions.user.signKeyUpdate''
        then (Some RefSignKeyUpdate, UserPermissionsObject.SignKeyUpdate reqUser)
      else if field = ''permissions.user.permissionsUpdate''
        then (Some RefPermissionsUpdate, UserPermissionsObject.PermissionsUpdate reqUser)
      else (None, False))"

text \<open>
  One iteration of the loop of \<open>applyUpdateRequest\<close>: the switch on the field path. The
  flag returned with the record is the condition of the \<open>if\<close> of the branch taken, that
  is what \<open>update\<close> returned; it is \<open>False\<close> when no branch is taken.
\<close>

definition applyField :: "userRecord \<Rightarrow> UserRequest \<Rightarrow> string \<Rightarrow> panic + bool \<times> userRecord" where
  "applyField record req field =
     (if field = ''active'' then
        (case booleanRecord_update (userRecord.Active record) (UserObject.Active (Data req)) (Timestamp req) of
           (accepted, active) \<Rightarrow>
             Inr (accepted,
               if accepted
               then record\<lparr>userRecord.Active := active, userRecord.UpdatedAt := Timestamp req\<rparr>
               else record\<lparr>userRecord.Active := active\<rparr>))
      else if field = ''encKey'' then
        (case encKeyObject (Data req) of
           None \<Rightarrow> Inl NilPointerDereference
         | Some val \<Rightarrow>
            (case keyRecord_update (EncKey record) val (Timestamp req) of
               (accepted, key) \<Rightarrow>
                 Inr (accepted,
                   if accepted
                   then record\<lparr>EncKey := key, userRecord.UpdatedAt := Timestamp req\<rparr>
                   else record\<lparr>EncKey := key\<rparr>)))
      else if field = ''signKey'' then
        (case signKeyObject (Data req) of
           None \<Rightarrow> Inl NilPointerDereference
         | Some val \<Rightarrow>
            (case keyRecord_update (SignKey record) val (Timestamp req) of
               (accepted, key) \<Rightarrow>
                 Inr (accepted,
                   if accepted
                   then record\<lparr>SignKey := key, userRecord.UpdatedAt := Timestamp req\<rparr>
                   else record\<lparr>SignKey := key\<rparr>)))
      else if field = ''permissions.channel.add'' then
        (let perms = userRecord.Permissions record; channel = permissionsRecord.Channel perms in
         case booleanRecord_update (channelPermissionsRecord.Add channel)
                (ChannelPermissionsObject.Add (PermissionsObject.Channel (UserObject.Permissions (Data req))))
                (Timestamp req) of
           (accepted, add) \<Rightarrow>
             Inr (accepted,
               if accepted
               then record\<lparr>userRecord.UpdatedAt := Timestamp req,
                           userRecord.Permissions := perms
                             \<lparr>permissionsRecord.UpdatedAt := Timestamp req,
                              permissionsRecord.Channel := channel
                                \<lparr>channelPermissionsRecord.Add := add,
                                 channelPermissionsRecord.UpdatedAt := Timestamp req\<rparr>\<rparr>\<rparr>
               else record\<lparr>userRecord.Permissions := perms
                             \<lparr>permissionsRecord.Channel := channel
                                \<lparr>channelPermissionsRecord.Add := add\<rparr>\<rparr>\<rparr>))
      else if field \<in> {''permissions.user.add'', ''permissions.user.remove'',
                        ''permissions.user.encKeyUpdate'', ''permissions.user.signKeyUpdate'',
                        ''permissions.user.permissionsUpdate''} then
        (let perms = userRecord.Permissions record; user = permissionsRecord.User perms in
         case userPermissionSwitch field (PermissionsObject.User (UserObject.Permissions (Data req))) of
           (None, reqVal) \<Rightarrow> Inl NilPointerDereference
         | (Some perm, reqVal) \<Rightarrow>
            (case booleanRecord_update (deref perm user) reqVal (Timestamp req) of
               (accepted, b) \<Rightarrow>
                 Inr (accepted,
                   if accepted
                   then record\<lparr>userRecord.UpdatedAt := Timestamp req,
                               userRecord.Permissions := perms
                                 \<lparr>permissionsRecord.UpdatedAt := Timestamp req,
                                  permissionsRecord.User := (assign perm b user)
                                    \<lparr>userPermissionsRecord.UpdatedAt := Timestamp req\<rparr>\<rparr>\<rparr>
                   else record\<lparr>userRecord.Permissions := perms
                                 \<lparr>permissionsRecord.User := assign perm b user\<rparr>\<rparr>)))
      else Inr (False, record))"

text \<open>The loop over \<open>req.FieldsUpdated\<close>; a panic ends it.\<close>

fun applyFields :: "userRecord \<Rightarrow> UserRequest \<Rightarrow> string list \<Rightarrow> panic + userRecord" where
  "applyFields record req [] = Inr record"
| "applyFields record req (field # rest) =
     (case applyField record req field of
        Inl p \<Rightarrow> Inl p
      | Inr (accepted, record') \<Rightarrow> applyFields record' req rest)"

definition applyUpdateRequest :: "userRecord \<Rightarrow> UserRequest \<Rightarrow> panic + userRecord" where
  "applyUpdateRequest record req = applyFields record req (FieldsUpdated req)"

text \<open>A sequence of calls on the same record, in order.\<close>

fun applyUpdateRequests :: "userRecord \<Rightarrow> UserRequest list \<Rightarrow> panic + userRecord" where
  "applyUpdateRequests record [] = Inr record"
| "applyUpdateRequests record (req # reqs) =
     (case applyUpdateRequest record req of
        Inl p \<Rightarrow> Inl p
      | Inr record' \<Rightarrow> applyUpdateRequests record' reqs)"

subsection \<open>Observing a record\<close>

text \<open>
  The nine leaf fields of a user record, the field path that names each of them, and what
  a record and a request hold for a leaf. These functions are used to state properties;
  \<open>applyField\<close> does not use them.
\<close>

datatype leaf = LActive | LEncKey | LSignKey | LChannelAdd | LUser userPermissionRef

datatype fieldValue = BoolValue bool | KeyValue PublicKey

definition recognizedPaths :: "string list" where
  "recognizedPaths =
     [''active'', ''encKey'', ''signKey'', ''permissions.channel.add'',
      ''permissions.user.add'', ''permissions.user.remove'', ''permissions.user.encKeyUpdate'',
      ''permissions.user.signKeyUpdate'', ''permissions.user.permissionsUpdate'']"

definition resolve :: "string \<Rightarrow> leaf option" where
  "resolve field =
     (if field = ''active'' then Some LActive
      else if field = ''encKey'' then Some LEncKey
      else if field = ''signKey'' then Some LSignKey
      else if field = ''permissions.channel.add'' then Some LChannelAdd
      else if field = ''permissions.user.add'' then Some (LUser RefAdd)
      else if field = ''permissions.user.remove'' then Some (LUser RefRemove)
      else if field = ''permissions.user.encKeyUpdate'' then Some (LUser RefEncKeyUpdate)
      else if field = ''permissions.user.signKeyUpdate'' then Some (LUser RefSignKeyUpdate)
      else if field = ''permissions.user.permissionsUpdate'' then Some (LUser RefPermissionsUpdate)
      else None)"

fun leafUpdatedAt :: "userRecord \<Rightarrow> leaf \<Rightarrow> time" where
  "leafUpdatedAt r LActive = booleanRecord.UpdatedAt (userRecord.Active r)"
| "leafUpdatedAt r LEncKey = keyRecord.UpdatedAt (EncKey r)"
| "leafUpdatedAt r LSignKey = keyRecord.UpdatedAt (SignKey r)"
| "leafUpdatedAt r LChannelAdd =
     booleanRecord.UpdatedAt (channelPermissionsRecord.Add (permissionsRecord.Channel (userRecord.Permissions r)))"
| "leafUpdatedAt r (LUser p) =
     booleanRecord.UpdatedAt (deref p (permissionsRecord.User (userRecord.Permissions r)))"

fun leafValue :: "userRecord \<Rightarrow> leaf \<Rightarrow> fieldValue" where
  "leafValue r LActive = BoolValue (Ok (userRecord.Active r))"
| "leafValue r LEncKey = KeyValue (Key (EncKey r))"
| "leafValue r LSignKey = KeyValue (Key (SignKey r))"
| "leafValue r LChannelAdd =
     BoolValue (Ok (channelPermissionsRecord.Add (permissionsRecord.Channel (userRecord.Permissions r))))"
| "leafValue r (LUser p) = BoolValue (Ok (deref p (permissionsRecord.User (userRecord.Permissions r))))"

fun requested :: "userPermissionRef \<Rightarrow> UserPermissionsObject \<Rightarrow> bool" where
  "requested RefAdd u = UserPermissionsObject.Add u"
| "requested RefRemove u = UserPermissionsObject.Remove u"
| "requested RefEncKeyUpdate u = UserPermissionsObject.EncKeyUpdate u"
| "requested RefSignKeyUpdate u = UserPermissionsObject.SignKeyUpdate u"
| "requested RefPermissionsUpdate u = UserPermissionsObject.PermissionsUpdate u"

text \<open>The value a request submits for a leaf; \<open>None\<close> when the key pointer is nil.\<close>

fun candidate :: "UserRequest \<Rightarrow> leaf \<Rightarrow> fieldValue option" where
  "candidate req LActive = Some (BoolValue (UserObject.Active (Data req)))"
| "candidate req LEncKey = map_option KeyValue (encKeyObject (Data req))"
| "candidate req LSignKey = map_option KeyValue (signKeyObject (Data req))"
| "candidate req LChannelAdd =
     Some (BoolValue (ChannelPermissionsObject.Add (PermissionsObject.Channel (UserObject.Permissions (Data req)))))"
| "candidate req (LUser p) =
     Some (BoolValue (requested p (PermissionsObject.User (UserObject.Permissions (Data req)))))"

text \<open>
  The roll-up invariant of the specification: the timestamp of every container is the
  maximum of the timestamps of the leaf fields below it.
\<close>

definition channelLeafTimes :: "channelPermissionsRecord \<Rightarrow> time list" where
  "channelLeafTimes c = [booleanRecord.UpdatedAt (channelPermissionsRecord.Add c)]"

definition userLeafTimes :: "userPermissionsRecord \<Rightarrow> time list" where
  "userLeafTimes u =
     [booleanRecord.UpdatedAt (userPermissionsRecord.Add u),
      booleanRecord.UpdatedAt (userPermissionsRecord.Remove u),
      booleanRecord.UpdatedAt (userPermissionsRecord.EncKeyUpdate u),
      booleanRecord.UpdatedAt (userPermissionsRecord.SignKeyUpdate u),
      booleanRecord.UpdatedAt (userPermissionsRecord.PermissionsUpdate u)]"

definition permissionsLeafTimes :: "permissionsRecord \<Rightarrow> time list" where
  "permissionsLeafTimes p =
     channelLeafTimes (permissionsRecord.Channel p) @ userLeafTimes (permissionsRecord.User p)"

definition recordLeafTimes :: "userRecord \<Rightarrow> time list" where
  "recordLeafTimes r =
     [keyRecord.UpdatedAt (EncKey r), keyRecord.UpdatedAt (SignKey r)]
     @ permissionsLeafTimes (userRecord.Permissions r)
     @ [booleanRecord.UpdatedAt (userRecord.Active r)]"

definition rollUpInvariant :: "userRecord \<Rightarrow> bool" where
  "rollUpInvariant r \<longleftrightarrow>
     userRecord.UpdatedAt r = Max (set (recordLeafTimes r))
     \<and> permissionsRecord.UpdatedAt (userRecord.Permissions r)
         = Max (set (permissionsLeafTimes (userRecord.Permissions r)))
     \<and> channelPermissionsRecord.UpdatedAt (permissionsRecord.Channel (userRecord.Permissions r))
         = Max (set (channelLeafTimes (permissionsRecord.Channel (userRecord.Permissions r))))
     \<and> userPermissionsRecord.UpdatedAt (permissionsRecord.User (userRecord.Permissions r))
         = Max (set (userLeafTimes (permissionsRecord.User (userRecord.Permissions r))))"

text \<open>
  A sequence of requests is chronological for a record when the timestamps do not
  decrease along it and none is before the record's \<open>UpdatedAt\<close>.
\<close>

fun chronological :: "time \<Rightarrow> UserRequest list \<Rightarrow> bool" where
  "chronological t [] = True"
| "chronological t (req # reqs) = (t \<le> Timestamp req \<and> chronological (Timestamp req) reqs)"

subsection \<open>The merge step as the specification words it\<close>

text \<open>
  The specification describes \<open>ApplyFieldUpdate(record, fieldPath, candidateValue,
  candidateTimestamp)\<close>: resolve the path to a leaf, accept iff the candidate timestamp is
  strictly after the leaf's \<open>UpdatedAt\<close>, on acceptance set the leaf and then the
  \<open>UpdatedAt\<close> of every ancestor container. The definitions below follow these words;
  \<open>applyField\<close> above follows the source, and the two are compared in
  \<open>applyField_refines\<close>.
\<close>

fun pathOf :: "leaf \<Rightarrow> string" where
  "pathOf LActive = ''active''"
| "pathOf LEncKey = ''encKey''"
| "pathOf LSignKey = ''signKey''"
| "pathOf LChannelAdd = ''permissions.channel.add''"
| "pathOf (LUser RefAdd) = ''permissions.user.add''"
| "pathOf (LUser RefRemove) = ''permissions.user.remove''"
| "pathOf (LUser RefEncKeyUpdate) = ''permissions.user.encKeyUpdate''"
| "pathOf (LUser RefSignKeyUpdate) = ''permissions.user.signKeyUpdate''"
| "pathOf (LUser RefPermissionsUpdate) = ''permissions.user.permissionsUpdate''"

fun setLeaf :: "userRecord \<Rightarrow> leaf \<Rightarrow> fieldValue \<Rightarrow> time \<Rightarrow> userRecord" where
  "setLeaf r LActive (BoolValue b) t = r\<lparr>userRecord.Active := \<lparr>Ok = b, booleanRecord.UpdatedAt = t\<rparr>\<rparr>"
| "setLeaf r LEncKey (KeyValue k) t = r\<lparr>EncKey := \<lparr>Key = k, keyRecord.UpdatedAt = t\<rparr>\<rparr>"
| "setLeaf r LSignKey (KeyValue k) t = r\<lparr>SignKey := \<lparr>Key = k, keyRecord.UpdatedAt = t\<rparr>\<rparr>"
| "setLeaf r LChannelAdd (BoolValue b) t =
     r\<lparr>userRecord.Permissions := (userRecord.Permissions r)
        \<lparr>permissionsRecord.Channel := (permissionsRecord.Channel (userRecord.Permissions r))
           \<lparr>channelPermissionsRecord.Add := \<lparr>Ok = b, booleanRecord.UpdatedAt = t\<rparr>\<rparr>\<rparr>\<rparr>"
| "setLeaf r (LUser p) (BoolValue b) t =
     r\<lparr>userRecord.Permissions := (userRecord.Permissions r)
        \<lparr>permissionsRecord.User :=
           assign p \<lparr>Ok = b, booleanRecord.UpdatedAt = t\<rparr> (permissionsRecord.User (userRecord.Permissions r))\<rparr>\<rparr>"
| "setLeaf r l v t = r"

datatype container = Root | CPermissions | CChannel | CUser

fun ancestors :: "leaf \<Rightarrow> container list" where
  "ancestors LActive = [Root]"
| "ancestors LEncKey = [Root]"
| "ancestors LSignKey = [Root]"
| "ancestors LChannelAdd = [CChannel, CPermissions, Root]"
| "ancestors (LUser p) = [CUser, CPermissions, Root]"

fun containerUpdatedAt :: "userRecord \<Rightarrow> container \<Rightarrow> time" where
  "containerUpdatedAt r Root = userRecord.UpdatedAt r"
| "containerUpdatedAt r CPermissions = permissionsRecord.UpdatedAt (userRecord.Permissions r)"
| "containerUpdatedAt r CChannel =
     channelPermissionsRecord.UpdatedAt (permissionsRecord.Channel (userRecord.Permissions r))"
| "containerUpdatedAt r CUser =
     userPermissionsRecord.UpdatedAt (permissionsRecord.User (userRecord.Permissions r))"

fun touch :: "container \<Rightarrow> time \<Rightarrow> userRecord \<Rightarrow> userRecord" where
  "touch Root t r = r\<lparr>userRecord.UpdatedAt := t\<rparr>"
| "touch CPermissions t r =
     r\<lparr>userRecord.Permissions := (userRecord.Permissions r)\<lparr>permissionsRecord.UpdatedAt := t\<rparr>\<rparr>"
| "touch CChannel t r =
     r\<lparr>userRecord.Permissions := (userRecord.Permissions r)
        \<lparr>permissionsRecord.Channel := (permissionsRecord.Channel (userRecord.Permissions r))
           \<lparr>channelPermissionsRecord.UpdatedAt := t\<rparr>\<rparr>\<rparr>"
| "touch CUser t r =
     r\<lparr>userRecord.Permissions := (userRecord.Permissions r)
        \<lparr>permissionsRecord.User := (permissionsRecord.User (userRecord.Permissions r))
           \<lparr>userPermissionsRecord.UpdatedAt := t\<rparr>\<rparr>\<rparr>"

definition accept :: "userRecord \<Rightarrow> leaf \<Rightarrow> fieldValue \<Rightarrow> time \<Rightarrow> userRecord" where
  "accept r l v t = fold (\<lambda>c. touch c t) (ancestors l) (setLeaf r l v t)"

definition ApplyFieldUpdate :: "userRecord \<Rightarrow> string \<Rightarrow> fieldValue \<Rightarrow> time \<Rightarrow> bool \<times> userRecord" where
  "ApplyFieldUpdate record fieldPath candidateValue candidateTimestamp =
     (case resolve fieldPath of
        None \<Rightarrow> (False, record)
      | Some l \<Rightarrow>
          if leafUpdatedAt record l < candidateTimestamp
          then (True, accept record l candidateValue candidateTimestamp)
          else (False, record))"


fun descendants :: "container \<Rightarrow> leaf list" where
  "descendants Root =
     [LEncKey, LSignKey, LChannelAdd, LUser RefAdd, LUser RefRemove, LUser RefEncKeyUpdate,
      LUser RefSignKeyUpdate, LUser RefPermissionsUpdate, LActive]"
| "descendants CPermissions =
     [LChannelAdd, LUser RefAdd, LUser RefRemove, LUser RefEncKeyUpdate,
      LUser RefSignKeyUpdate, LUser RefPermissionsUpdate]"
| "descendants CChannel = [LChannelAdd]"
| "descendants CUser =
     [LUser RefAdd, LUser RefRemove, LUser RefEncKeyUpdate,
      LUser RefSignKeyUpdate, LUser RefPermissionsUpdate]"

fun wellTyped :: "leaf \<Rightarrow> fieldValue \<Rightarrow> bool" where
  "wellTyped LEncKey (KeyValue k) = True"
| "wellTyped LSignKey (KeyValue k) = True"
| "wellTyped LEncKey (BoolValue k) = False"
| "wellTyped LSignKey (BoolValue k) = False"
| "wellTyped l (BoolValue b) = True"
| "wellTyped l (KeyValue b) = False"


subsection \<open>Rejected and carried paths\<close>

text \<open>
  A path is settled in a record for a request when applying it changes nothing: it names
  no leaf, or the leaf is not older than the request. A request carries a path when the
  value it submits for it can be read, that is the key pointer is not nil.
\<close>

definition settled :: "userRecord \<Rightarrow> UserRequest \<Rightarrow> string \<Rightarrow> bool" where
  "settled r req field =
     (case resolve field of None \<Rightarrow> True | Some l \<Rightarrow> Timestamp req \<le> leafUpdatedAt r l)"

definition carried :: "UserRequest \<Rightarrow> string \<Rightarrow> bool" where
  "carried req field \<longleftrightarrow>
     (field = ''encKey'' \<longrightarrow> encKeyObject (Data req) \<noteq> None)
     \<and> (field = ''signKey'' \<longrightarrow> signKeyObject (Data req) \<noteq> None)"

subsection \<open>The paths a request gets accepted\<close>

text \<open>
  The loop of \<open>applyUpdateRequest\<close> once more, this time keeping what it discards: the
  paths, in order, for which \<open>update\<close> returned true.
\<close>

fun acceptedFields :: "userRecord \<Rightarrow> UserRequest \<Rightarrow> string list \<Rightarrow> panic + string list" where
  "acceptedFields record req [] = Inr []"
| "acceptedFields record req (field # rest) =
     (case applyField record req field of
        Inl p \<Rightarrow> Inl p
      | Inr (accepted, record') \<Rightarrow>
         (case acceptedFields record' req rest of
            Inl p \<Rightarrow> Inl p
          | Inr acc \<Rightarrow> Inr (if accepted then field # acc else acc)))"

subsection \<open>Example data\<close>

definition exampleRecord :: userRecord where
  "exampleRecord =
     \<lparr>Id = ''alice'',
      EncKey = \<lparr>Key = \<lparr>N = 15, E = 3\<rparr>, keyRecord.UpdatedAt = 10\<rparr>,
      SignKey = \<lparr>Key = \<lparr>N = 21, E = 5\<rparr>, keyRecord.UpdatedAt = 0\<rparr>,
      userRecord.Permissions =
        \<lparr>permissionsRecord.Channel =
           \<lparr>channelPermissionsRecord.Add = \<lparr>Ok = False, booleanRecord.UpdatedAt = 0\<rparr>,
            channelPermissionsRecord.UpdatedAt = 0\<rparr>,
         permissionsRecord.User =
           \<lparr>userPermissionsRecord.Add = \<lparr>Ok = False, booleanRecord.UpdatedAt = 0\<rparr>,
            userPermissionsRecord.Remove = \<lparr>Ok = False, booleanRecord.UpdatedAt = 0\<rparr>,
            userPermissionsRecord.EncKeyUpdate = \<lparr>Ok = False, booleanRecord.UpdatedAt = 0\<rparr>,
            userPermissionsRecord.SignKeyUpdate = \<lparr>Ok = False, booleanRecord.UpdatedAt = 0\<rparr>,
            userPermissionsRecord.PermissionsUpdate = \<lparr>Ok = False, booleanRecord.UpdatedAt = 0\<rparr>,
            userPermissionsRecord.UpdatedAt = 0\<rparr>,
         permissionsRecord.UpdatedAt = 0\<rparr>,
      userRecord.Active = \<lparr>Ok = False, booleanRecord.UpdatedAt = 1\<rparr>,
      CreatedAt = 0,
      userRecord.UpdatedAt = 10\<rparr>"

definition exampleRecordMerged :: userRecord where
  "exampleRecordMerged =
     exampleRecord
       \<lparr>userRecord.Permissions :=
          \<lparr>permissionsRecord.Channel = permissionsRecord.Channel (userRecord.Permissions exampleRecord),
           permissionsRecord.User =
             (permissionsRecord.User (userRecord.Permissions exampleRecord))
               \<lparr>userPermissionsRecord.Add := \<lparr>Ok = True, booleanRecord.UpdatedAt = 12\<rparr>,
                userPermissionsRecord.UpdatedAt := 12\<rparr>,
           permissionsRecord.UpdatedAt = 12\<rparr>,
        userRecord.Active := \<lparr>Ok = True, booleanRecord.UpdatedAt = 12\<rparr>,
        userRecord.UpdatedAt := 12\<rparr>"

definition exampleRecordLater :: userRecord where
  "exampleRecordLater =
     exampleRecordMerged
       \<lparr>EncKey := \<lparr>Key = \<lparr>N = 33, E = 7\<rparr>, keyRecord.UpdatedAt = 15\<rparr>,
        userRecord.UpdatedAt := 15\<rparr>"

definition exampleData :: UserObject where
  "exampleData =
     \<lparr>UserObject.Active = True,
      encKeyObject = Some \<lparr>N = 33, E = 7\<rparr>,
      signKeyObject = None,
      UserObject.Permissions =
        \<lparr>PermissionsObject.Channel = \<lparr>ChannelPermissionsObject.Add = True\<rparr>,
         PermissionsObject.User =
           \<lparr>UserPermissionsObject.Add = True, UserPermissionsObject.Remove = False,
            UserPermissionsObject.EncKeyUpdate = True, UserPermissionsObject.SignKeyUpdate = False,
            UserPermissionsObject.PermissionsUpdate = True\<rparr>\<rparr>\<rparr>"

definition exampleRequest :: "string list \<Rightarrow> time \<Rightarrow> UserRequest" where
  "exampleRequest paths t = \<lparr>FieldsUpdated = paths, Data = exampleData, Timestamp = t\<rparr>"


section \<open>Cryptography utilities (package core)\<close>

text \<open>
  A \<open>[]byte\<close> and a Go string are both byte sequences; the conversions between them
  copy the bytes, so one type stands for both.
\<close>

type_synonym bytes = string

subsection \<open>The standard library\<close>

text \<open>
  \<open>encoding/pem\<close> and \<open>crypto/x509\<close> belong to the Go standard library, not to the
  repository. The functions below take them as a parameter. A \<open>pem.Block\<close> and the
  key types \<open>x509.ParsePKIXPublicKey\<close> can return are data; an \<open>error\<close> is its
  message, \<open>None\<close> when it is nil. \<open>pemDecode\<close> is the first result of
  \<open>pem.Decode\<close>, \<open>None\<close> when it is nil.
\<close>

record pemBlock =
  Type :: string
  Headers :: "(string \<times> string) list"
  Bytes :: bytes

datatype publicKey =
    RSAPublicKey PublicKey
  | DSAPublicKey bytes
  | ECDSAPublicKey bytes
  | Ed25519PublicKey bytes
  | ECDHPublicKey bytes

record stdlib =
  pemDecode :: "bytes \<Rightarrow> pemBlock option"
  pemEncodeToMemory :: "pemBlock \<Rightarrow> bytes"
  marshalPKIXPublicKey :: "publicKey \<Rightarrow> bytes \<times> string option"
  parsePKIXPublicKey :: "bytes \<Rightarrow> publicKey option \<times> string option"

text \<open>
  \<open>err.Error()\<close>: calling the method on a nil \<open>error\<close> is a nil dereference.
\<close>

fun Error :: "string option \<Rightarrow> panic + string" where
  "Error None = Inl NilPointerDereference"
| "Error (Some message) = Inr message"

subsection \<open>Public keys as text\<close>

text \<open>
  \<open>AsymKeyToString\<close> drops the error of \<open>x509.MarshalPKIXPublicKey\<close>. Its call of
  \<open>pem.Encode\<close> writes to a buffer that is not read again; the result is that of
  \<open>pem.EncodeToMemory\<close>.
\<close>

definition AsymKeyToString :: "stdlib \<Rightarrow> PublicKey \<Rightarrow> string" where
  "AsymKeyToString lib key =
     (let keyBytes = fst (marshalPKIXPublicKey lib (RSAPublicKey key));
          block = \<lparr>Type = ''RSA PUBLIC KEY'', Headers = [], Bytes = keyBytes\<rparr>
      in pemEncodeToMemory lib block)"

text \<open>
  \<open>StringToAsymKey\<close> returns a key and an error. In the \<open>default\<close> branch of the type
  switch the source builds its message from \<open>err.Error()\<close>, with the \<open>err\<close> of
  \<open>x509.ParsePKIXPublicKey\<close>.
\<close>

definition StringToAsymKey :: "stdlib \<Rightarrow> string \<Rightarrow> panic + PublicKey option \<times> string option" where
  "StringToAsymKey lib rsaString =
     (case pemDecode lib rsaString of
        None \<Rightarrow> Inr (None, Some ''failed to parse PEM block containing the public key'')
      | Some block \<Rightarrow>
         (case parsePKIXPublicKey lib (Bytes block) of
            (pub, err) \<Rightarrow>
              if err \<noteq> None then
                (case Error err of
                   Inl p \<Rightarrow> Inl p
                 | Inr message \<Rightarrow> Inr (None, Some (''failed to parse DER encoded public key: '' @ message)))
              else
                (case pub of
                   Some (RSAPublicKey k) \<Rightarrow> Inr (Some k, None)
                 | _ \<Rightarrow>
                    (case Error err of
                       Inl p \<Rightarrow> Inl p
                     | Inr message \<Rightarrow> Inr (None, Some (''unknown type of public key'' @ message))))))"

definition isRSA :: "publicKey option \<Rightarrow> bool" where
  "isRSA pub = (case pub of Some (RSAPublicKey k) \<Rightarrow> True | _ \<Rightarrow> False)"

subsection \<open>The temporary envelope\<close>

text \<open>
  \<open>rsa.PrivateKey\<close> embeds the public key. \<open>NewAead\<close>, \<open>SymmetricEncrypt\<close>,
  \<open>AsymmetricEncrypt\<close> and \<open>Base64EncodeToString\<close> are functions of package core whose
  source files are not among the sources; they are a parameter, with the result pairs of
  the Go functions (a value and an error). \<open>AsymmetricEncrypt\<close> draws random bytes; the
  parameter is what the one call of it returns.
\<close>

record PrivateKey =
  PublicKey :: PublicKey
  D :: int
  Primes :: "int list"

record 'aead coreLib =
  NewAead :: "bytes \<Rightarrow> 'aead \<times> string option"
  SymmetricEncrypt :: "'aead \<Rightarrow> bytes \<Rightarrow> bytes \<Rightarrow> bytes \<Rightarrow> bytes"
  AsymmetricEncrypt :: "PublicKey \<Rightarrow> bytes \<Rightarrow> bytes \<times> string option"
  Base64EncodeToString :: "bytes \<Rightarrow> string"

text \<open>
  What the random source yields in one call of the sealing function: the two results of
  \<open>generateRandomBytes\<close> and the key of \<open>generatePrivateKey\<close>.
\<close>

record entropy =
  nonceBytes :: bytes
  keyBytes :: bytes
  freshKey :: PrivateKey

text \<open>
  The envelope. \<open>Challenges\<close> is a \<open>map[string]string\<close>; \<open>Version\<close> is the decimal
  literal \<open>0.1\<close> of the source.
\<close>

record TemporaryEncryptionFields =
  Encrypted :: bool
  Challenges :: "string \<rightharpoonup> string"
  Nonce :: string

record TemporaryEncryptedOperation =
  Version :: rat
  Encryption :: TemporaryEncryptionFields
  Payload :: string

definition GenerateTemporaryEncryptedOperation ::
  "'aead coreLib \<Rightarrow> bool \<Rightarrow> (string \<rightharpoonup> string) \<Rightarrow> bytes \<Rightarrow> bool \<Rightarrow> bytes \<Rightarrow> bool
     \<Rightarrow> TemporaryEncryptedOperation" where
  "GenerateTemporaryEncryptedOperation lib encrypted challenges nonce nonceEncoded payload payloadEncoded =
     (let nonceResult = (if \<not> nonceEncoded then Base64EncodeToString lib nonce else nonce);
          payloadResult = (if \<not> payloadEncoded then Base64EncodeToString lib payload else payload)
      in \<lparr>Version = 1 / 10,
          Encryption = \<lparr>Encrypted = encrypted, Challenges = challenges, Nonce = nonceResult\<rparr>,
          Payload = payloadResult\<rparr>)"

text \<open>
  \<open>modifyChallenges\<close> is a function the caller passes; it receives the map and may change
  it in place. The model takes it as the function from the map before to the map after.
  A nil \<open>recipientKey\<close> is \<open>None\<close>. The errors of \<open>NewAead\<close> and
  \<open>AsymmetricEncrypt\<close> are dropped, as in the source.
\<close>

definition GenerateTemporaryEncryptedOperationWithEncryption ::
  "'aead coreLib \<Rightarrow> entropy \<Rightarrow> bytes \<Rightarrow> bytes \<Rightarrow> ((string \<rightharpoonup> string) \<Rightarrow> (string \<rightharpoonup> string))
     \<Rightarrow> PrivateKey option \<Rightarrow> TemporaryEncryptedOperation \<times> PrivateKey" where
  "GenerateTemporaryEncryptedOperationWithEncryption lib rnd plainPayload plaintextChallenge
       modifyChallenges recipientKey =
     (let temporaryNonce = nonceBytes rnd;
          temporaryKey = keyBytes rnd;
          aead = fst (NewAead lib temporaryKey);
          payloadCiphertext = SymmetricEncrypt lib aead [] temporaryNonce plainPayload;
          challengeCiphertext = SymmetricEncrypt lib aead [] temporaryNonce plaintextChallenge;
          recipientKey = (case recipientKey of None \<Rightarrow> freshKey rnd | Some k \<Rightarrow> k);
          symKeyEncrypted = fst (AsymmetricEncrypt lib (PublicKey recipientKey) temporaryKey);
          challengeCiphertextBase64 = Base64EncodeToString lib challengeCiphertext;
          symKeyEncryptedBase64 = Base64EncodeToString lib symKeyEncrypted;
          challenges = modifyChallenges [symKeyEncryptedBase64 \<mapsto> challengeCiphertextBase64]
      in (GenerateTemporaryEncryptedOperation lib True challenges temporaryNonce False
            payloadCiphertext False,
          recipientKey))"

text \<open>
  The recipient of a call, and the entry the function builds for it before it calls the
  hook.
\<close>

definition recipientOf :: "entropy \<Rightarrow> PrivateKey option \<Rightarrow> PrivateKey" where
  "recipientOf rnd recipientKey = (case recipientKey of None \<Rightarrow> freshKey rnd | Some k \<Rightarrow> k)"

definition challengeKey :: "'aead coreLib \<Rightarrow> entropy \<Rightarrow> PublicKey \<Rightarrow> string" where
  "challengeKey lib rnd pub =
     Base64EncodeToString lib (fst (AsymmetricEncrypt lib pub (keyBytes rnd)))"

definition challengeValue :: "'aead coreLib \<Rightarrow> entropy \<Rightarrow> bytes \<Rightarrow> string" where
  "challengeValue lib rnd plaintextChallenge =
     Base64EncodeToString lib
       (SymmetricEncrypt lib (fst (NewAead lib (keyBytes rnd))) [] (nonceBytes rnd) plaintextChallenge)"

text \<open>Small stand-ins for the two libraries, to evaluate the functions on concrete inputs.\<close>

definition exampleStdlib :: stdlib where
  "exampleStdlib =
     \<lparr>pemDecode = (\<lambda>s. if take 4 s = ''PEM:''
                        then Some \<lparr>Type = ''RSA PUBLIC KEY'', Headers = [], Bytes = drop 4 s\<rparr>
                        else None),
      pemEncodeToMemory = (\<lambda>block. ''PEM:'' @ Bytes block),
      marshalPKIXPublicKey = (\<lambda>key. if key = RSAPublicKey \<lparr>N = 15, E = 3\<rparr>
                                   then (''rsa-15-3'', None)
                                   else ([], Some ''x509: unsupported public key type'')),
      parsePKIXPublicKey = (\<lambda>der. if der = ''rsa-15-3'' then (Some (RSAPublicKey \<lparr>N = 15, E = 3\<rparr>), None)
                                 else if der = ''ed25519'' then (Some (Ed25519PublicKey ''k''), None)
                                 else (None, Some ''asn1: syntax error''))\<rparr>"

definition exampleCore :: "bytes coreLib" where
  "exampleCore =
     \<lparr>NewAead = (\<lambda>key. (key, None)),
      SymmetricEncrypt = (\<lambda>aead additionalData nonce plaintext. aead @ nonce @ plaintext),
      AsymmetricEncrypt = (\<lambda>pub message. (rev message, None)),
      Base64EncodeToString = (\<lambda>b. ''b64:'' @ b)\<rparr>"

definition exampleEntropy :: entropy where
  "exampleEntropy =
     \<lparr>nonceBytes = ''nonce'', keyBytes = ''key'',
      freshKey = \<lparr>PublicKey = \<lparr>N = 15, E = 3\<rparr>, D = 3, Primes = [3, 5]\<rparr>\<rparr>"

section \<open>Leaf updates: acceptance\<close>

text \<open>
  C2. A leaf update is accepted exactly when the candidate timestamp is strictly after the
  field's current \<open>UpdatedAt\<close>. An accepted update returns true and writes the value and
  the timestamp; a rejected one, in particular one with an equal timestamp, returns false
  and leaves the field as it was. This holds for boolean and for key fields.
\<close>

theorem update_accepted_iff_strictly_after:
  "(fst (booleanRecord_update perm val t) \<longleftrightarrow> booleanRecord.UpdatedAt perm < t)
   \<and> (booleanRecord.UpdatedAt perm < t \<longrightarrow>
        booleanRecord_update perm val t = (True, \<lparr>Ok = val, booleanRecord.UpdatedAt = t\<rparr>))
   \<and> (\<not> booleanRecord.UpdatedAt perm < t \<longrightarrow> booleanRecord_update perm val t = (False, perm))
   \<and> booleanRecord_update perm val (booleanRecord.UpdatedAt perm) = (False, perm)
   \<and> (fst (keyRecord_update keyRec k t) \<longleftrightarrow> keyRecord.UpdatedAt keyRec < t)
   \<and> (keyRecord.UpdatedAt keyRec < t \<longrightarrow>
        keyRecord_update keyRec k t = (True, \<lparr>Key = k, keyRecord.UpdatedAt = t\<rparr>))
   \<and> (\<not> keyRecord.UpdatedAt keyRec < t \<longrightarrow> keyRecord_update keyRec k t = (False, keyRec))
   \<and> keyRecord_update keyRec k (keyRecord.UpdatedAt keyRec) = (False, keyRec)"
  by (simp add: booleanRecord_update_def keyRecord_update_def After_def)

theorem update_accepted_iff_strictly_after_witness:
  "booleanRecord_update \<lparr>Ok = False, booleanRecord.UpdatedAt = 3\<rparr> True 5
     = (True, \<lparr>Ok = True, booleanRecord.UpdatedAt = 5\<rparr>)
   \<and> booleanRecord_update \<lparr>Ok = False, booleanRecord.UpdatedAt = 3\<rparr> True 2
     = (False, \<lparr>Ok = False, booleanRecord.UpdatedAt = 3\<rparr>)
   \<and> keyRecord_update \<lparr>Key = \<lparr>N = 15, E = 3\<rparr>, keyRecord.UpdatedAt = 3\<rparr> \<lparr>N = 21, E = 5\<rparr> 4
     = (True, \<lparr>Key = \<lparr>N = 21, E = 5\<rparr>, keyRecord.UpdatedAt = 4\<rparr>)
   \<and> keyRecord_update \<lparr>Key = \<lparr>N = 15, E = 3\<rparr>, keyRecord.UpdatedAt = 3\<rparr> \<lparr>N = 21, E = 5\<rparr> 3
     = (False, \<lparr>Key = \<lparr>N = 15, E = 3\<rparr>, keyRecord.UpdatedAt = 3\<rparr>)"
  using update_accepted_iff_strictly_after
          [of "\<lparr>Ok = False, booleanRecord.UpdatedAt = 3\<rparr>" True 5
              "\<lparr>Key = \<lparr>N = 15, E = 3\<rparr>, keyRecord.UpdatedAt = 3\<rparr>" "\<lparr>N = 21, E = 5\<rparr>"]
        update_accepted_iff_strictly_after
          [of "\<lparr>Ok = False, booleanRecord.UpdatedAt = 3\<rparr>" True 2
              "\<lparr>Key = \<lparr>N = 15, E = 3\<rparr>, keyRecord.UpdatedAt = 3\<rparr>" "\<lparr>N = 21, E = 5\<rparr>"]
        update_accepted_iff_strictly_after
          [of "\<lparr>Ok = False, booleanRecord.UpdatedAt = 3\<rparr>" True 4
              "\<lparr>Key = \<lparr>N = 15, E = 3\<rparr>, keyRecord.UpdatedAt = 3\<rparr>" "\<lparr>N = 21, E = 5\<rparr>"]
        update_accepted_iff_strictly_after
          [of "\<lparr>Ok = False, booleanRecord.UpdatedAt = 3\<rparr>" True 3
              "\<lparr>Key = \<lparr>N = 15, E = 3\<rparr>, keyRecord.UpdatedAt = 3\<rparr>" "\<lparr>N = 21, E = 5\<rparr>"]
  by simp

section \<open>The source step refines the specified step\<close>

lemma resolve_None_iff: "resolve f = None \<longleftrightarrow> f \<notin> set recognizedPaths"
  by (simp add: resolve_def recognizedPaths_def)

lemma applyField_unknown: "resolve f = None \<Longrightarrow> applyField r q f = Inr (False, r)"
  by (simp add: resolve_def applyField_def split: if_splits)

lemma applyField_nil:
  "resolve f = Some l \<Longrightarrow> candidate q l = None \<Longrightarrow> applyField r q f = Inl NilPointerDereference"
  by (auto simp add: resolve_def applyField_def split: if_splits)

lemma applyField_stale:
  "resolve f = Some l \<Longrightarrow> candidate q l = Some v \<Longrightarrow> \<not> leafUpdatedAt r l < Timestamp q
   \<Longrightarrow> applyField r q f = Inr (False, r)"
  by (auto simp add: resolve_def applyField_def booleanRecord_update_def keyRecord_update_def
        After_def userPermissionSwitch_def split: if_splits)

lemma resolve_pathOf: "resolve f = Some l \<longleftrightarrow> f = pathOf l"
  apply (cases l)
  subgoal by (auto simp: resolve_def)
  subgoal by (auto simp: resolve_def)
  subgoal by (auto simp: resolve_def)
  subgoal by (auto simp: resolve_def)
  subgoal for p by (cases p) (auto simp: resolve_def)
  done

lemma applyField_refines:
  "applyField r q f =
     (case resolve f of
        None \<Rightarrow> Inr (False, r)
      | Some l \<Rightarrow>
         (case candidate q l of
            None \<Rightarrow> Inl NilPointerDereference
          | Some v \<Rightarrow> Inr (ApplyFieldUpdate r f v (Timestamp q))))"
proof (cases "resolve f")
  case None
  then show ?thesis by (simp add: applyField_unknown)
next
  case (Some l)
  then have f: "f = pathOf l" by (simp add: resolve_pathOf)
  show ?thesis
  proof (cases l)
    case LActive
    then show ?thesis using Some f
      by (simp add: ApplyFieldUpdate_def accept_def applyField_def booleanRecord_update_def After_def)
  next
    case LEncKey
    then show ?thesis using Some f
      by (simp add: ApplyFieldUpdate_def accept_def applyField_def keyRecord_update_def After_def split: option.splits)
  next
    case LSignKey
    then show ?thesis using Some f
      by (simp add: ApplyFieldUpdate_def accept_def applyField_def keyRecord_update_def After_def split: option.splits)
  next
    case LChannelAdd
    then show ?thesis using Some f
      by (simp add: ApplyFieldUpdate_def accept_def applyField_def booleanRecord_update_def After_def Let_def)
  next
    case (LUser p)
    then show ?thesis using Some f
      by (cases p) (simp_all add: ApplyFieldUpdate_def accept_def applyField_def booleanRecord_update_def After_def Let_def userPermissionSwitch_def)
  qed
qed

lemma candidate_wellTyped: "candidate q l = Some v \<Longrightarrow> wellTyped l v"
  by (cases l) auto

lemma deref_assign: "deref p (assign p' b u) = (if p = p' then b else deref p u)"
  by (cases p; cases p') simp_all

lemma deref_UpdatedAt [simp]:
  "deref p (u\<lparr>userPermissionsRecord.UpdatedAt := t\<rparr>) = deref p u"
  by (cases p) simp_all

lemma assign_UpdatedAt [simp]:
  "userPermissionsRecord.UpdatedAt (assign p b u) = userPermissionsRecord.UpdatedAt u"
  by (cases p) simp_all

lemma leafUpdatedAt_accept:
  "wellTyped l v \<Longrightarrow> leafUpdatedAt (accept r l v t) l' = (if l' = l then t else leafUpdatedAt r l')"
  by (cases l; cases v; cases l') (simp_all add: accept_def deref_assign)

lemma leafValue_accept:
  "wellTyped l v \<Longrightarrow> leafValue (accept r l v t) l' = (if l' = l then v else leafValue r l')"
  by (cases l; cases v; cases l') (simp_all add: accept_def deref_assign)

lemma containerUpdatedAt_accept:
  "wellTyped l v \<Longrightarrow> containerUpdatedAt (accept r l v t) c
     = (if c \<in> set (ancestors l) then t else containerUpdatedAt r c)"
  by (cases l; cases v; cases c) (simp_all add: accept_def)

lemma rollUp_containers:
  "rollUpInvariant r \<longleftrightarrow>
     (\<forall>c. containerUpdatedAt r c = Max (leafUpdatedAt r ` set (descendants c)))"
proof -
  have "(\<forall>c. containerUpdatedAt r c = Max (leafUpdatedAt r ` set (descendants c)))
        \<longleftrightarrow> (containerUpdatedAt r Root = Max (leafUpdatedAt r ` set (descendants Root))
           \<and> containerUpdatedAt r CPermissions = Max (leafUpdatedAt r ` set (descendants CPermissions))
           \<and> containerUpdatedAt r CChannel = Max (leafUpdatedAt r ` set (descendants CChannel))
           \<and> containerUpdatedAt r CUser = Max (leafUpdatedAt r ` set (descendants CUser)))"
    (is "?L \<longleftrightarrow> ?R")
  proof
    assume ?L then show ?R by blast
  next
    assume R: ?R
    show ?L
    proof
      fix c show "containerUpdatedAt r c = Max (leafUpdatedAt r ` set (descendants c))"
        using R by (cases c) blast+
    qed
  qed
  also have "\<dots> \<longleftrightarrow> rollUpInvariant r"
    unfolding rollUpInvariant_def recordLeafTimes_def permissionsLeafTimes_def
          channelLeafTimes_def userLeafTimes_def
    by (simp del: Max_insert Max_singleton)
  finally show ?thesis by simp
qed

lemma ancestors_descendants: "c \<in> set (ancestors l) \<longleftrightarrow> l \<in> set (descendants c)"
proof (cases l)
  case (LUser p)
  then show ?thesis by (cases c; cases p) simp_all
qed (cases c; simp)+

lemma leaf_below_root: "l \<in> set (descendants Root)"
proof (cases l)
  case (LUser p)
  then show ?thesis by (cases p) simp_all
qed simp_all

lemma rollUp_accept:
  assumes inv: "rollUpInvariant r" and le: "userRecord.UpdatedAt r \<le> t" and wt: "wellTyped l v"
  shows "rollUpInvariant (accept r l v t)"
  unfolding rollUp_containers
proof
  fix c
  let ?r' = "accept r l v t"
  have invc: "containerUpdatedAt r c' = Max (leafUpdatedAt r ` set (descendants c'))" for c'
    using inv unfolding rollUp_containers by (rule spec)
  have leaves: "leafUpdatedAt r l' \<le> t" for l'
  proof -
    have "leafUpdatedAt r l' \<in> leafUpdatedAt r ` set (descendants Root)"
      by (rule imageI) (rule leaf_below_root)
    then have "leafUpdatedAt r l' \<le> Max (leafUpdatedAt r ` set (descendants Root))"
      by (intro Max_ge) blast+
    also have "\<dots> = containerUpdatedAt r Root"
      by (rule invc [symmetric])
    also have "\<dots> = userRecord.UpdatedAt r" by (rule containerUpdatedAt.simps)
    finally show ?thesis using le by (rule order_trans)
  qed
  show "containerUpdatedAt ?r' c = Max (leafUpdatedAt ?r' ` set (descendants c))"
  proof (cases "l \<in> set (descendants c)")
    case True
    have "Max (leafUpdatedAt ?r' ` set (descendants c)) = t"
    proof (rule Max_eqI)
      show "finite (leafUpdatedAt ?r' ` set (descendants c))" by blast
      have "leafUpdatedAt ?r' l = t" using wt by (simp add: leafUpdatedAt_accept)
      then show "t \<in> leafUpdatedAt ?r' ` set (descendants c)"
        using True by (metis imageI)
      show "y \<le> t" if "y \<in> leafUpdatedAt ?r' ` set (descendants c)" for y
      proof -
        from that obtain l' where "y = leafUpdatedAt ?r' l'" by blast
        then show ?thesis using wt leaves [of l'] by (simp add: leafUpdatedAt_accept)
      qed
    qed
    then show ?thesis using True wt
      by (simp only: containerUpdatedAt_accept ancestors_descendants if_True)
  next
    case False
    have "leafUpdatedAt ?r' l' = leafUpdatedAt r l'" if "l' \<in> set (descendants c)" for l'
      using that False wt by (auto simp: leafUpdatedAt_accept)
    then have "leafUpdatedAt ?r' ` set (descendants c) = leafUpdatedAt r ` set (descendants c)"
      by (intro image_cong) blast+
    moreover have "containerUpdatedAt ?r' c = containerUpdatedAt r c"
      using False wt by (simp only: containerUpdatedAt_accept ancestors_descendants if_False)
    ultimately show ?thesis using invc [of c] by (simp only:)
  qed
qed

section \<open>Steps of the loop\<close>

lemma applyField_cases:
  assumes "applyField r q f = Inr (a, r')"
  shows "(\<not> a \<and> r' = r)
       \<or> (a \<and> (\<exists>l v. resolve f = Some l \<and> candidate q l = Some v
                \<and> leafUpdatedAt r l < Timestamp q \<and> r' = accept r l v (Timestamp q)))"
  using assms unfolding applyField_refines ApplyFieldUpdate_def
  by (auto split: option.splits if_splits)

lemma root_accept:
  "wellTyped l v \<Longrightarrow> userRecord.UpdatedAt (accept r l v t) = t"
  using containerUpdatedAt_accept [of l v r t Root] leaf_below_root [of l]
  by (simp add: ancestors_descendants del: descendants.simps)

lemma rollUp_applyField:
  assumes "applyField r q f = Inr (a, r')" "rollUpInvariant r" "userRecord.UpdatedAt r \<le> Timestamp q"
  shows "rollUpInvariant r' \<and> userRecord.UpdatedAt r' \<le> Timestamp q"
proof -
  from applyField_cases [OF assms(1)] show ?thesis
  proof (elim disjE conjE exE)
    assume "r' = r" then show ?thesis using assms by simp
  next
    fix l v assume c: "candidate q l = Some v" and r': "r' = accept r l v (Timestamp q)"
    have wt: "wellTyped l v" using c by (rule candidate_wellTyped)
    show ?thesis using rollUp_accept [OF assms(2,3) wt] root_accept [OF wt] r' by simp
  qed
qed

lemma rollUp_applyFields:
  "applyFields r q fs = Inr r' \<Longrightarrow> rollUpInvariant r \<Longrightarrow> userRecord.UpdatedAt r \<le> Timestamp q
   \<Longrightarrow> rollUpInvariant r' \<and> userRecord.UpdatedAt r' \<le> Timestamp q"
proof (induction fs arbitrary: r)
  case Nil
  then show ?case by simp
next
  case (Cons f fs)
  from Cons.prems(1) obtain a r1 where s: "applyField r q f = Inr (a, r1)"
    and rest: "applyFields r1 q fs = Inr r'"
    by (auto split: sum.splits)
  from rollUp_applyField [OF s Cons.prems(2,3)] Cons.IH [OF rest] show ?case by blast
qed


lemma carried_candidate:
  "carried q f \<longleftrightarrow> (case resolve f of None \<Rightarrow> True | Some l \<Rightarrow> candidate q l \<noteq> None)"
proof (cases "resolve f")
  case None
  then show ?thesis by (auto simp: carried_def resolve_def split: if_splits)
next
  case (Some l)
  then have "f = pathOf l" by (simp add: resolve_pathOf)
  with Some show ?thesis
  proof (cases l)
    case (LUser p)
    with \<open>f = pathOf l\<close> Some show ?thesis by (cases p) (simp_all add: carried_def)
  qed (simp_all add: carried_def)
qed

lemma applyField_rejected:
  "settled r q f \<Longrightarrow> carried q f \<Longrightarrow> applyField r q f = Inr (False, r)"
  unfolding settled_def carried_candidate applyField_refines ApplyFieldUpdate_def
  by (auto split: option.splits)

lemma applyField_panic_iff: "(\<exists>p. applyField r q f = Inl p) \<longleftrightarrow> \<not> carried q f"
  unfolding carried_candidate applyField_refines
  by (auto split: option.splits)

lemma applyField_mono:
  assumes "applyField r q f = Inr (a, r')"
  shows "leafUpdatedAt r l \<le> leafUpdatedAt r' l"
  using applyField_cases [OF assms]
  by (auto simp: leafUpdatedAt_accept dest: candidate_wellTyped)

lemma applyField_settles:
  assumes "applyField r q f = Inr (a, r')"
  shows "settled r' q f"
  using assms unfolding settled_def applyField_refines ApplyFieldUpdate_def
  by (auto simp: leafUpdatedAt_accept split: option.splits if_splits dest: candidate_wellTyped)

lemma settled_mono:
  "applyField r q g = Inr (a, r') \<Longrightarrow> settled r q f \<Longrightarrow> settled r' q f"
  unfolding settled_def using applyField_mono [of r q g a r']
  by (auto split: option.splits intro: order_trans)

lemma applyFields_settled_mono:
  "applyFields r q fs = Inr r' \<Longrightarrow> settled r q f \<Longrightarrow> settled r' q f"
proof (induction fs arbitrary: r)
  case (Cons g fs)
  from Cons.prems(1) obtain a r1 where s: "applyField r q g = Inr (a, r1)"
    and rest: "applyFields r1 q fs = Inr r'"
    by (auto split: sum.splits)
  from Cons.IH [OF rest settled_mono [OF s Cons.prems(2)]] show ?case .
qed simp

lemma applyFields_settles:
  "applyFields r q fs = Inr r' \<Longrightarrow> f \<in> set fs \<Longrightarrow> settled r' q f \<and> carried q f"
proof (induction fs arbitrary: r)
  case (Cons g fs)
  from Cons.prems(1) obtain a r1 where s: "applyField r q g = Inr (a, r1)"
    and rest: "applyFields r1 q fs = Inr r'"
    by (auto split: sum.splits)
  show ?case
  proof (cases "f = g")
    case True
    have "carried q g" using s applyField_panic_iff [of r q g] by auto
    moreover have "settled r' q g"
      using applyFields_settled_mono [OF rest applyField_settles [OF s]] .
    ultimately show ?thesis using True by simp
  next
    case False
    then show ?thesis using Cons.IH [OF rest] Cons.prems(2) by simp
  qed
qed simp

lemma applyFields_all_rejected:
  "(\<forall>f \<in> set fs. settled r q f \<and> carried q f) \<Longrightarrow> applyFields r q fs = Inr r"
  by (induction fs) (simp_all add: applyField_rejected)

lemma applyFields_drop_rejected:
  "settled r q f \<Longrightarrow> carried q f \<Longrightarrow> applyFields r q (fs1 @ f # fs2) = applyFields r q (fs1 @ fs2)"
proof (induction fs1 arbitrary: r)
  case Nil
  then show ?case by (simp add: applyField_rejected)
next
  case (Cons g fs1)
  show ?case
  proof (cases "applyField r q g")
    case (Inl p)
    then show ?thesis by simp
  next
    case (Inr b)
    obtain a r1 where b: "b = (a, r1)" by (cases b)
    from Inr b Cons.IH [OF settled_mono [OF Inr [unfolded b] Cons.prems(1)] Cons.prems(2)]
    show ?thesis by simp
  qed
qed

lemma applyFields_panic:
  "applyFields r q fs = Inl p \<Longrightarrow> \<exists>f \<in> set fs. \<not> carried q f"
proof (induction fs arbitrary: r)
  case (Cons g fs)
  show ?case
  proof (cases "applyField r q g")
    case (Inl p')
    then show ?thesis using applyField_panic_iff [of r q g] by auto
  next
    case (Inr b)
    obtain a r1 where b: "b = (a, r1)" by (cases b)
    from Cons.prems Inr b have "applyFields r1 q fs = Inl p" by simp
    from Cons.IH [OF this] show ?thesis by simp
  qed
qed simp

lemma applyFields_total:
  "(\<forall>f \<in> set fs. carried q f) \<Longrightarrow> \<exists>r'. applyFields r q fs = Inr r'"
  using applyFields_panic [of r q fs] by (cases "applyFields r q fs") auto

section \<open>Accepted paths\<close>

lemma applyField_accepted_fresh:
  assumes "applyField r q f = Inr (True, r')"
  shows "\<not> settled r q f"
proof
  assume "settled r q f"
  moreover have "carried q f" using assms applyField_panic_iff [of r q f] by auto
  ultimately have "applyField r q f = Inr (False, r)" by (rule applyField_rejected)
  with assms show False by simp
qed

lemma acceptedFields_fresh:
  "acceptedFields r q fs = Inr acc \<Longrightarrow> f \<in> set acc \<Longrightarrow> \<not> settled r q f \<and> f \<in> set fs"
proof (induction fs arbitrary: r acc)
  case (Cons g fs)
  from Cons.prems(1) obtain a r1 acc1 where s: "applyField r q g = Inr (a, r1)"
    and rest: "acceptedFields r1 q fs = Inr acc1"
    and acc: "acc = (if a then g # acc1 else acc1)"
    by (auto split: sum.splits)
  show ?case
  proof (cases "f \<in> set acc1")
    case True
    from Cons.IH [OF rest True] settled_mono [OF s] show ?thesis by auto
  next
    case False
    with Cons.prems(2) acc have "a" "f = g" by (auto split: if_splits)
    with s applyField_accepted_fresh show ?thesis by auto
  qed
qed simp

lemma acceptedFields_distinct:
  "acceptedFields r q fs = Inr acc \<Longrightarrow> distinct acc"
proof (induction fs arbitrary: r acc)
  case (Cons g fs)
  from Cons.prems(1) obtain a r1 acc1 where s: "applyField r q g = Inr (a, r1)"
    and rest: "acceptedFields r1 q fs = Inr acc1"
    and acc: "acc = (if a then g # acc1 else acc1)"
    by (auto split: sum.splits)
  have "g \<notin> set acc1"
    using acceptedFields_fresh [OF rest, of g] applyField_settles [OF s] by blast
  with Cons.IH [OF rest] acc show ?case by simp
qed simp

lemma acceptedFields_defined:
  "applyFields r q fs = Inr r' \<Longrightarrow> \<exists>acc. acceptedFields r q fs = Inr acc"
proof (induction fs arbitrary: r)
  case (Cons g fs)
  from Cons.prems(1) obtain a r1 where s: "applyField r q g = Inr (a, r1)"
    and rest: "applyFields r1 q fs = Inr r'"
    by (auto split: sum.splits)
  from Cons.IH [OF rest] s show ?case by auto
qed simp

lemma pathOf_inj: "pathOf l = pathOf l' \<longleftrightarrow> l = l'"
  using resolve_pathOf [of "pathOf l" l] resolve_pathOf [of "pathOf l" l'] by auto

lemma acceptedFields_final:
  "applyFields r q fs = Inr r' \<Longrightarrow> acceptedFields r q fs = Inr acc \<Longrightarrow>
     (pathOf l \<in> set acc \<longrightarrow>
        leafUpdatedAt r' l = Timestamp q \<and> candidate q l = Some (leafValue r' l))
     \<and> (pathOf l \<notin> set acc \<longrightarrow>
        leafUpdatedAt r' l = leafUpdatedAt r l \<and> leafValue r' l = leafValue r l)"
proof (induction fs arbitrary: r acc)
  case (Cons g fs)
  from Cons.prems obtain a r1 acc1 where s: "applyField r q g = Inr (a, r1)"
    and rest: "applyFields r1 q fs = Inr r'"
    and rest': "acceptedFields r1 q fs = Inr acc1"
    and acc: "acc = (if a then g # acc1 else acc1)"
    by (auto split: sum.splits)
  note IH = Cons.IH [OF rest rest']
  from applyField_cases [OF s] show ?case
  proof (elim disjE conjE exE)
    assume "\<not> a" "r1 = r"
    with IH acc show ?thesis by simp
  next
    fix l0 v
    assume a: a and l0: "resolve g = Some l0" and c: "candidate q l0 = Some v"
      and r1: "r1 = accept r l0 v (Timestamp q)"
    have wt: "wellTyped l0 v" using c by (rule candidate_wellTyped)
    have g: "g = pathOf l0" using l0 by (simp add: resolve_pathOf)
    have notin: "g \<notin> set acc1"
      using acceptedFields_fresh [OF rest', of g] applyField_settles [OF s] by blast
    show ?thesis
    proof (cases "l = l0")
      case True
      with IH notin g have "leafUpdatedAt r' l = leafUpdatedAt r1 l" "leafValue r' l = leafValue r1 l"
        by simp_all
      with True wt c r1 acc a g show ?thesis
        by (simp add: leafUpdatedAt_accept leafValue_accept)
    next
      case False
      then have "pathOf l \<noteq> g" using g by (simp add: pathOf_inj)
      with IH False wt r1 acc a show ?thesis
        by (simp add: leafUpdatedAt_accept leafValue_accept)
    qed
  qed
qed simp

section \<open>Two requests for one path\<close>

lemma assign_assign: "assign p b (assign p b' u) = assign p b u"
  by (cases p) simp_all

lemma assign_touch:
  "assign p b (u\<lparr>userPermissionsRecord.UpdatedAt := t\<rparr>)
     = (assign p b u)\<lparr>userPermissionsRecord.UpdatedAt := t\<rparr>"
  by (cases p) simp_all

lemma accept_overwrite:
  assumes "wellTyped l v1" "wellTyped l v2"
  shows "accept (accept r l v1 t1) l v2 t2 = accept r l v2 t2"
proof (cases l)
  case LActive
  with assms show ?thesis by (cases v1; cases v2) (simp_all add: accept_def)
next
  case LEncKey
  with assms show ?thesis by (cases v1; cases v2) (simp_all add: accept_def)
next
  case LSignKey
  with assms show ?thesis by (cases v1; cases v2) (simp_all add: accept_def)
next
  case LChannelAdd
  with assms show ?thesis by (cases v1; cases v2) (simp_all add: accept_def)
next
  case (LUser p)
  with assms show ?thesis
    by (cases v1; cases v2) (simp_all add: accept_def assign_assign assign_touch)
qed

lemma applyUpdateRequest_single:
  "FieldsUpdated q = [f] \<Longrightarrow>
   applyUpdateRequest r q =
     (case resolve f of
        None \<Rightarrow> Inr r
      | Some l \<Rightarrow>
         (case candidate q l of
            None \<Rightarrow> Inl NilPointerDereference
          | Some v \<Rightarrow> Inr (if leafUpdatedAt r l < Timestamp q then accept r l v (Timestamp q) else r)))"
  by (simp add: applyUpdateRequest_def applyField_refines ApplyFieldUpdate_def split: option.splits)

lemma two_requests_commute:
  assumes "FieldsUpdated q1 = [f]" "FieldsUpdated q2 = [f]" "Timestamp q1 < Timestamp q2"
  shows "applyUpdateRequests r [q1, q2] = applyUpdateRequests r [q2, q1]"
proof (cases "resolve f")
  case None
  then show ?thesis by (simp add: applyUpdateRequest_single [OF assms(1)] applyUpdateRequest_single [OF assms(2)])
next
  case (Some l)
  show ?thesis
  proof (cases "candidate q1 l")
    case None
    with Some show ?thesis
      by (simp add: applyUpdateRequest_single [OF assms(1)] applyUpdateRequest_single [OF assms(2)]
            split: option.splits)
  next
    case v1: (Some v1)
    show ?thesis
    proof (cases "candidate q2 l")
      case None
      with Some v1 show ?thesis
        by (simp add: applyUpdateRequest_single [OF assms(1)] applyUpdateRequest_single [OF assms(2)])
    next
      case v2: (Some v2)
      have wt: "wellTyped l v1" "wellTyped l v2"
        using v1 v2 by (auto dest: candidate_wellTyped)
      with Some v1 v2 assms(3) show ?thesis
        by (simp add: applyUpdateRequest_single [OF assms(1)] applyUpdateRequest_single [OF assms(2)]
              leafUpdatedAt_accept accept_overwrite)
    qed
  qed
qed

lemma two_requests_later_wins:
  assumes "FieldsUpdated q1 = [f]" "FieldsUpdated q2 = [f]" "Timestamp q1 < Timestamp q2"
    and "resolve f = Some l" "carried q1 f" "candidate q2 l = Some v" "leafUpdatedAt r l < Timestamp q2"
  shows "\<exists>r'. applyUpdateRequests r [q1, q2] = Inr r' \<and> leafValue r' l = v
            \<and> leafUpdatedAt r' l = Timestamp q2"
proof -
  from assms(4,5) obtain v1 where v1: "candidate q1 l = Some v1"
    by (auto simp: carried_candidate)
  have wt: "wellTyped l v1" "wellTyped l v"
    using v1 assms(6) by (auto dest: candidate_wellTyped)
  with assms v1 show ?thesis
    by (simp add: applyUpdateRequest_single [OF assms(1)] applyUpdateRequest_single [OF assms(2)]
              leafUpdatedAt_accept leafValue_accept)
qed

section \<open>Evaluating the examples\<close>

lemmas example_defs = exampleRecord_def exampleRecordMerged_def exampleRecordLater_def
  exampleRequest_def exampleData_def

lemmas engine_defs = applyUpdateRequest_def applyField_def booleanRecord_update_def
  keyRecord_update_def After_def userPermissionSwitch_def Let_def

lemmas rollUp_defs = rollUpInvariant_def recordLeafTimes_def permissionsLeafTimes_def
  channelLeafTimes_def userLeafTimes_def

section \<open>The roll-up timestamps\<close>

text \<open>
  C1, as the code has it. An accepted update assigns the request's timestamp to every
  container above the leaf, whatever the other leaves hold. So the roll-up invariant (every
  container's \<open>UpdatedAt\<close> is the maximum over the leaves below it) is kept by a sequence
  of \<open>applyUpdateRequest\<close> calls when the requests arrive in chronological order: their
  timestamps do not decrease and the first is not before the record's \<open>UpdatedAt\<close>.
\<close>

theorem rollUp_preserved_when_chronological:
  "rollUpInvariant r \<Longrightarrow> chronological (userRecord.UpdatedAt r) reqs
   \<Longrightarrow> applyUpdateRequests r reqs = Inr r'
   \<Longrightarrow> rollUpInvariant r'"
proof (induction reqs arbitrary: r)
  case Nil
  then show ?case by simp
next
  case (Cons q qs)
  from Cons.prems(3) obtain r1 where s: "applyUpdateRequest r q = Inr r1"
    and rest: "applyUpdateRequests r1 qs = Inr r'"
    by (auto split: sum.splits)
  from Cons.prems(2) have le: "userRecord.UpdatedAt r \<le> Timestamp q"
    and chr: "chronological (Timestamp q) qs" by simp_all
  from rollUp_applyFields [OF s [unfolded applyUpdateRequest_def] Cons.prems(1) le]
  have inv1: "rollUpInvariant r1" and le1: "userRecord.UpdatedAt r1 \<le> Timestamp q" by simp_all
  have chr1: "chronological (userRecord.UpdatedAt r1) qs"
    using chr le1 by (cases qs) auto
  from Cons.IH [OF inv1 chr1 rest] show ?case .
qed

theorem rollUp_preserved_when_chronological_witness:
  "rollUpInvariant exampleRecord
   \<and> chronological (userRecord.UpdatedAt exampleRecord)
         [exampleRequest [''active'', ''permissions.user.add''] 12,
          exampleRequest [''encKey'', ''nickname''] 15]
   \<and> applyUpdateRequests exampleRecord
         [exampleRequest [''active'', ''permissions.user.add''] 12,
          exampleRequest [''encKey'', ''nickname''] 15] = Inr exampleRecordLater
   \<and> rollUpInvariant exampleRecordLater"
proof -
  have h1: "rollUpInvariant exampleRecord"
    by (simp add: example_defs rollUp_defs)
  have h2: "chronological (userRecord.UpdatedAt exampleRecord)
         [exampleRequest [''active'', ''permissions.user.add''] 12,
          exampleRequest [''encKey'', ''nickname''] 15]"
    by (simp add: example_defs)
  have h3: "applyUpdateRequests exampleRecord
         [exampleRequest [''active'', ''permissions.user.add''] 12,
          exampleRequest [''encKey'', ''nickname''] 15] = Inr exampleRecordLater"
    by (simp add: example_defs engine_defs)
  from rollUp_preserved_when_chronological [OF h1 h2 h3] h1 h2 h3 show ?thesis by blast
qed

text \<open>
  The claim as the specification states it, for every sequence of calls, fails: a record
  whose encryption key was set at instant 10 accepts an update of \<open>active\<close> stamped 5
  (the leaf was last set at 1), and the record's \<open>UpdatedAt\<close> becomes 5 while the
  maximum over its leaves is still 10.
\<close>

theorem rollUp_counterexample:
  "rollUpInvariant exampleRecord
   \<and> applyField exampleRecord (exampleRequest [''active''] 5) ''active''
       = Inr (True, exampleRecord\<lparr>userRecord.Active := \<lparr>Ok = True, booleanRecord.UpdatedAt = 5\<rparr>,
                                  userRecord.UpdatedAt := 5\<rparr>)
   \<and> applyUpdateRequest exampleRecord (exampleRequest [''active''] 5)
       = Inr (exampleRecord\<lparr>userRecord.Active := \<lparr>Ok = True, booleanRecord.UpdatedAt = 5\<rparr>,
                            userRecord.UpdatedAt := 5\<rparr>)
   \<and> \<not> rollUpInvariant (exampleRecord\<lparr>userRecord.Active := \<lparr>Ok = True, booleanRecord.UpdatedAt = 5\<rparr>,
                                      userRecord.UpdatedAt := 5\<rparr>)"
  by (simp add: example_defs engine_defs rollUp_defs)

section \<open>Replaying a request\<close>

text \<open>
  C5. Applying the identical update twice leaves the state after the second application
  equal to the state after the first, and the second application is not accepted. This
  holds for a leaf update of either kind and for a whole request: when
  \<open>applyUpdateRequest\<close> returns a record, applying the same request to that record
  returns it unchanged, and \<open>update\<close> returns false for every path the request names.
\<close>

theorem identical_update_twice:
  "snd (booleanRecord_update (snd (booleanRecord_update perm val t)) val t)
      = snd (booleanRecord_update perm val t)
   \<and> \<not> fst (booleanRecord_update (snd (booleanRecord_update perm val t)) val t)
   \<and> snd (keyRecord_update (snd (keyRecord_update keyRec k t)) k t) = snd (keyRecord_update keyRec k t)
   \<and> \<not> fst (keyRecord_update (snd (keyRecord_update keyRec k t)) k t)
   \<and> (applyUpdateRequest r req = Inr r' \<longrightarrow>
        applyUpdateRequest r' req = Inr r'
        \<and> (\<forall>f \<in> set (FieldsUpdated req). applyField r' req f = Inr (False, r')))"
proof -
  have leaf: "snd (booleanRecord_update (snd (booleanRecord_update perm val t)) val t)
      = snd (booleanRecord_update perm val t)
   \<and> \<not> fst (booleanRecord_update (snd (booleanRecord_update perm val t)) val t)
   \<and> snd (keyRecord_update (snd (keyRecord_update keyRec k t)) k t) = snd (keyRecord_update keyRec k t)
   \<and> \<not> fst (keyRecord_update (snd (keyRecord_update keyRec k t)) k t)"
    by (simp add: booleanRecord_update_def keyRecord_update_def After_def)
  have req: "applyUpdateRequest r' req = Inr r'
        \<and> (\<forall>f \<in> set (FieldsUpdated req). applyField r' req f = Inr (False, r'))"
    if "applyUpdateRequest r req = Inr r'"
  proof -
    from that have a: "applyFields r req (FieldsUpdated req) = Inr r'"
      by (simp add: applyUpdateRequest_def)
    have all: "\<forall>f \<in> set (FieldsUpdated req). settled r' req f \<and> carried req f"
      using applyFields_settles [OF a] by blast
    then show ?thesis
      by (simp add: applyUpdateRequest_def applyFields_all_rejected applyField_rejected)
  qed
  from leaf req show ?thesis by blast
qed

theorem identical_update_twice_witness:
  "applyUpdateRequest exampleRecord (exampleRequest [''active'', ''permissions.user.add''] 12)
     = Inr exampleRecordMerged
   \<and> applyUpdateRequest exampleRecordMerged (exampleRequest [''active'', ''permissions.user.add''] 12)
     = Inr exampleRecordMerged
   \<and> applyField exampleRecordMerged (exampleRequest [''active'', ''permissions.user.add''] 12) ''active''
     = Inr (False, exampleRecordMerged)
   \<and> applyField exampleRecordMerged (exampleRequest [''active'', ''permissions.user.add''] 12)
        ''permissions.user.add''
     = Inr (False, exampleRecordMerged)"
proof -
  have h: "applyUpdateRequest exampleRecord (exampleRequest [''active'', ''permissions.user.add''] 12)
     = Inr exampleRecordMerged"
    by (simp add: example_defs engine_defs)
  have fs: "FieldsUpdated (exampleRequest [''active'', ''permissions.user.add''] 12)
     = [''active'', ''permissions.user.add'']"
    by (simp add: exampleRequest_def)
  from identical_update_twice
         [where r = exampleRecord and r' = exampleRecordMerged
            and req = "exampleRequest [''active'', ''permissions.user.add''] 12"] h fs
  show ?thesis by simp
qed

section \<open>Two updates of one leaf\<close>

text \<open>
  C6, as the code has it. For two updates of the same leaf with timestamps \<open>t1 < t2\<close>,
  both orders of application end in the same state; that state holds the value submitted
  with \<open>t2\<close> and \<open>UpdatedAt = t2\<close> provided \<open>t2\<close> is strictly after the
  \<open>UpdatedAt\<close> the leaf had before. This is shown for the two \<open>update\<close> methods and
  for two requests that each name the one path.
\<close>

theorem later_update_wins_in_either_order:
  "t1 < t2 \<Longrightarrow>
     snd (booleanRecord_update (snd (booleanRecord_update perm v1 t1)) v2 t2)
       = snd (booleanRecord_update (snd (booleanRecord_update perm v2 t2)) v1 t1)
     \<and> (booleanRecord.UpdatedAt perm < t2 \<longrightarrow>
          snd (booleanRecord_update (snd (booleanRecord_update perm v1 t1)) v2 t2)
            = \<lparr>Ok = v2, booleanRecord.UpdatedAt = t2\<rparr>)
     \<and> snd (keyRecord_update (snd (keyRecord_update keyRec k1 t1)) k2 t2)
       = snd (keyRecord_update (snd (keyRecord_update keyRec k2 t2)) k1 t1)
     \<and> (keyRecord.UpdatedAt keyRec < t2 \<longrightarrow>
          snd (keyRecord_update (snd (keyRecord_update keyRec k1 t1)) k2 t2)
            = \<lparr>Key = k2, keyRecord.UpdatedAt = t2\<rparr>)
     \<and> (FieldsUpdated req1 = [field] \<and> FieldsUpdated req2 = [field]
         \<and> Timestamp req1 = t1 \<and> Timestamp req2 = t2 \<longrightarrow>
          applyUpdateRequests r [req1, req2] = applyUpdateRequests r [req2, req1]
          \<and> (resolve field = Some l \<and> carried req1 field \<and> candidate req2 l = Some v
              \<and> leafUpdatedAt r l < t2 \<longrightarrow>
               (\<exists>r'. applyUpdateRequests r [req1, req2] = Inr r' \<and> leafValue r' l = v
                     \<and> leafUpdatedAt r' l = t2)))"
proof -
  assume lt: "t1 < t2"
  have leaf: "snd (booleanRecord_update (snd (booleanRecord_update perm v1 t1)) v2 t2)
       = snd (booleanRecord_update (snd (booleanRecord_update perm v2 t2)) v1 t1)
     \<and> (booleanRecord.UpdatedAt perm < t2 \<longrightarrow>
          snd (booleanRecord_update (snd (booleanRecord_update perm v1 t1)) v2 t2)
            = \<lparr>Ok = v2, booleanRecord.UpdatedAt = t2\<rparr>)"
    using lt by (simp add: booleanRecord_update_def After_def)
  have key: "snd (keyRecord_update (snd (keyRecord_update keyRec k1 t1)) k2 t2)
       = snd (keyRecord_update (snd (keyRecord_update keyRec k2 t2)) k1 t1)
     \<and> (keyRecord.UpdatedAt keyRec < t2 \<longrightarrow>
          snd (keyRecord_update (snd (keyRecord_update keyRec k1 t1)) k2 t2)
            = \<lparr>Key = k2, keyRecord.UpdatedAt = t2\<rparr>)"
    using lt by (simp add: keyRecord_update_def After_def)
  have req: "applyUpdateRequests r [req1, req2] = applyUpdateRequests r [req2, req1]
          \<and> (resolve field = Some l \<and> carried req1 field \<and> candidate req2 l = Some v
              \<and> leafUpdatedAt r l < t2 \<longrightarrow>
               (\<exists>r'. applyUpdateRequests r [req1, req2] = Inr r' \<and> leafValue r' l = v
                     \<and> leafUpdatedAt r' l = t2))"
    if h: "FieldsUpdated req1 = [field]" "FieldsUpdated req2 = [field]"
      "Timestamp req1 = t1" "Timestamp req2 = t2"
  proof -
    from h lt have lt': "Timestamp req1 < Timestamp req2" by simp
    from two_requests_commute [OF h(1,2) lt'] two_requests_later_wins [OF h(1,2) lt'] h(4)
    show ?thesis by blast
  qed
  from leaf key req show ?thesis by blast
qed

theorem later_update_wins_in_either_order_witness:
  "(12::int) < 15
   \<and> applyUpdateRequests exampleRecord
        [exampleRequest [''active''] 12,
         (exampleRequest [''active''] 15)\<lparr>Data := exampleData\<lparr>UserObject.Active := False\<rparr>\<rparr>]
       = Inr (exampleRecord\<lparr>userRecord.Active := \<lparr>Ok = False, booleanRecord.UpdatedAt = 15\<rparr>,
                            userRecord.UpdatedAt := 15\<rparr>)
   \<and> applyUpdateRequests exampleRecord
        [(exampleRequest [''active''] 15)\<lparr>Data := exampleData\<lparr>UserObject.Active := False\<rparr>\<rparr>,
         exampleRequest [''active''] 12]
       = Inr (exampleRecord\<lparr>userRecord.Active := \<lparr>Ok = False, booleanRecord.UpdatedAt = 15\<rparr>,
                            userRecord.UpdatedAt := 15\<rparr>)
   \<and> snd (booleanRecord_update (snd (booleanRecord_update \<lparr>Ok = True, booleanRecord.UpdatedAt = 1\<rparr> True 12)) False 15)
       = \<lparr>Ok = False, booleanRecord.UpdatedAt = 15\<rparr>
   \<and> snd (booleanRecord_update (snd (booleanRecord_update \<lparr>Ok = True, booleanRecord.UpdatedAt = 1\<rparr> False 15)) True 12)
       = \<lparr>Ok = False, booleanRecord.UpdatedAt = 15\<rparr>"
proof -
  let ?q1 = "exampleRequest [''active''] 12"
  let ?q2 = "(exampleRequest [''active''] 15)\<lparr>Data := exampleData\<lparr>UserObject.Active := False\<rparr>\<rparr>"
  have lt: "(12::int) < 15" by simp
  have h: "FieldsUpdated ?q1 = [''active'']" "FieldsUpdated ?q2 = [''active'']"
    "Timestamp ?q1 = 12" "Timestamp ?q2 = 15"
    "resolve ''active'' = Some LActive" "carried ?q1 ''active''"
    "candidate ?q2 LActive = Some (BoolValue False)" "leafUpdatedAt exampleRecord LActive < 15"
    by (simp_all add: example_defs resolve_def carried_def)
  have v: "applyUpdateRequests exampleRecord [?q1, ?q2]
       = Inr (exampleRecord\<lparr>userRecord.Active := \<lparr>Ok = False, booleanRecord.UpdatedAt = 15\<rparr>,
                            userRecord.UpdatedAt := 15\<rparr>)"
    by (simp add: example_defs engine_defs)
  from later_update_wins_in_either_order
         [OF lt, where perm = "\<lparr>Ok = True, booleanRecord.UpdatedAt = 1\<rparr>" and ?v1.0 = True and ?v2.0 = False
            and ?req1.0 = ?q1 and ?req2.0 = ?q2 and field = "''active''" and r = exampleRecord
            and l = LActive and v = "BoolValue False"] h v lt
  show ?thesis by (simp add: booleanRecord_update_def After_def)
qed

text \<open>
  Without the proviso the claim fails: a leaf last set at instant 10 rejects both an
  update stamped 1 and an update stamped 2, in either order, and keeps its value.
\<close>

theorem later_update_counterexample:
  "(1::int) < 2
   \<and> snd (booleanRecord_update
            (snd (booleanRecord_update \<lparr>Ok = False, booleanRecord.UpdatedAt = 10\<rparr> True 1)) True 2)
       = \<lparr>Ok = False, booleanRecord.UpdatedAt = 10\<rparr>
   \<and> snd (booleanRecord_update
            (snd (booleanRecord_update \<lparr>Ok = False, booleanRecord.UpdatedAt = 10\<rparr> True 2)) True 1)
       = \<lparr>Ok = False, booleanRecord.UpdatedAt = 10\<rparr>
   \<and> \<lparr>Ok = False, booleanRecord.UpdatedAt = 10\<rparr> \<noteq> \<lparr>Ok = True, booleanRecord.UpdatedAt = 2\<rparr>
   \<and> applyUpdateRequests exampleRecord [exampleRequest [''encKey''] 1, exampleRequest [''encKey''] 2]
       = Inr exampleRecord
   \<and> applyUpdateRequests exampleRecord [exampleRequest [''encKey''] 2, exampleRequest [''encKey''] 1]
       = Inr exampleRecord
   \<and> leafValue exampleRecord LEncKey \<noteq> KeyValue \<lparr>N = 33, E = 7\<rparr>
   \<and> leafUpdatedAt exampleRecord LEncKey \<noteq> 2"
  by (simp add: example_defs engine_defs)

section \<open>Unknown paths and stale timestamps\<close>

text \<open>
  C7. A path that is not one of the nine recognized paths changes nothing and raises
  nothing: the step returns the record as it was, and the request behaves as if the path
  were not named. A request all of whose paths are unknown, or stale, or a mix of both,
  returns the record unchanged. \<open>applyUpdateRequest\<close> has no error result; the only
  failure of the model is the nil dereference of a key pointer, which happens exactly when
  the request names \<open>encKey\<close> or \<open>signKey\<close> without carrying the key object, and
  never for an unknown path or a stale timestamp.
\<close>

theorem unknown_paths_and_stale_timestamps_raise_nothing:
  "(field \<notin> set recognizedPaths \<longrightarrow>
       applyField r req field = Inr (False, r)
       \<and> applyFields r req (pre @ field # post) = applyFields r req (pre @ post))
   \<and> (set (FieldsUpdated req) \<inter> set recognizedPaths = {} \<longrightarrow> applyUpdateRequest r req = Inr r)
   \<and> ((\<forall>f \<in> set (FieldsUpdated req). settled r req f \<and> carried req f) \<longrightarrow>
        applyUpdateRequest r req = Inr r)
   \<and> ((\<forall>f \<in> set (FieldsUpdated req). carried req f) \<longrightarrow> (\<exists>r'. applyUpdateRequest r req = Inr r'))
   \<and> (applyUpdateRequest r req = Inl p \<longrightarrow> (\<exists>f \<in> set (FieldsUpdated req). \<not> carried req f))"
proof -
  have unknown: "settled r' req f \<and> carried req f" if "f \<notin> set recognizedPaths" for f r'
    using that by (simp add: resolve_None_iff [symmetric] settled_def carried_candidate)
  have one: "applyField r req field = Inr (False, r)
       \<and> applyFields r req (pre @ field # post) = applyFields r req (pre @ post)"
    if "field \<notin> set recognizedPaths"
    using unknown [OF that] by (simp add: applyField_rejected applyFields_drop_rejected)
  have none: "applyUpdateRequest r req = Inr r"
    if "set (FieldsUpdated req) \<inter> set recognizedPaths = {}"
  proof -
    from that have "\<forall>f \<in> set (FieldsUpdated req). settled r req f \<and> carried req f"
      using unknown by blast
    then show ?thesis by (simp add: applyUpdateRequest_def applyFields_all_rejected)
  qed
  have stale: "applyUpdateRequest r req = Inr r"
    if "\<forall>f \<in> set (FieldsUpdated req). settled r req f \<and> carried req f"
    using that by (simp add: applyUpdateRequest_def applyFields_all_rejected)
  have total: "\<exists>r'. applyUpdateRequest r req = Inr r'"
    if "\<forall>f \<in> set (FieldsUpdated req). carried req f"
    using applyFields_total [OF that] by (simp add: applyUpdateRequest_def)
  have panic: "\<exists>f \<in> set (FieldsUpdated req). \<not> carried req f"
    if "applyUpdateRequest r req = Inl p"
    using applyFields_panic [of r req "FieldsUpdated req" p] that
    by (simp add: applyUpdateRequest_def)
  from one none stale total panic show ?thesis by blast
qed

theorem unknown_paths_and_stale_timestamps_raise_nothing_witness:
  "''nickname'' \<notin> set recognizedPaths
   \<and> applyField exampleRecord (exampleRequest [''nickname'', ''encKey''] 5) ''nickname''
       = Inr (False, exampleRecord)
   \<and> applyFields exampleRecord (exampleRequest [''nickname'', ''encKey''] 5) [''active'', ''nickname'']
       = applyFields exampleRecord (exampleRequest [''nickname'', ''encKey''] 5) [''active'']
   \<and> applyUpdateRequest exampleRecord (exampleRequest [''nickname'', ''email''] 99) = Inr exampleRecord
   \<and> applyUpdateRequest exampleRecord (exampleRequest [''nickname'', ''encKey''] 5) = Inr exampleRecord
   \<and> (\<exists>r'. applyUpdateRequest exampleRecord (exampleRequest [''active'', ''encKey''] 12) = Inr r')
   \<and> applyUpdateRequest exampleRecord (exampleRequest [''signKey''] 5) = Inl NilPointerDereference
   \<and> \<not> carried (exampleRequest [''signKey''] 5) ''signKey''"
proof -
  have unknown: "''nickname'' \<notin> set recognizedPaths" "''email'' \<notin> set recognizedPaths"
    by (simp_all add: recognizedPaths_def)
  have stale: "settled exampleRecord (exampleRequest [''nickname'', ''encKey''] 5) ''nickname''"
    "settled exampleRecord (exampleRequest [''nickname'', ''encKey''] 5) ''encKey''"
    by (simp_all add: settled_def resolve_def example_defs)
  have carried: "carried (exampleRequest fs t) ''nickname''" "carried (exampleRequest fs t) ''encKey''"
    "carried (exampleRequest fs t) ''active''" "\<not> carried (exampleRequest fs t) ''signKey''" for fs t
    by (simp_all add: carried_def example_defs)
  have panic: "applyUpdateRequest exampleRecord (exampleRequest [''signKey''] 5) = Inl NilPointerDereference"
    by (simp add: example_defs engine_defs)
  have fs: "FieldsUpdated (exampleRequest fs t) = fs" for fs t
    by (simp add: exampleRequest_def)
  from unknown_paths_and_stale_timestamps_raise_nothing
         [where field = "''nickname''" and r = exampleRecord and pre = "[''active'']" and post = "[]"
            and req = "exampleRequest [''nickname'', ''encKey''] 5"]
       unknown_paths_and_stale_timestamps_raise_nothing
         [where r = exampleRecord and req = "exampleRequest [''nickname'', ''email''] 99"]
       unknown_paths_and_stale_timestamps_raise_nothing
         [where r = exampleRecord and req = "exampleRequest [''active'', ''encKey''] 12"]
       unknown_paths_and_stale_timestamps_raise_nothing
         [where r = exampleRecord and req = "exampleRequest [''signKey''] 5"
            and p = NilPointerDereference]
       unknown stale carried panic fs
  show ?thesis by simp
qed

section \<open>Rejected updates\<close>

text \<open>
  C8. A rejected update leaves the field's value and \<open>UpdatedAt\<close> as they were, and the
  whole record with them; the other paths of the same request are processed exactly as if
  the rejected path had not been named, wherever it stands in the request.
\<close>

theorem rejected_update_changes_nothing:
  "(\<not> booleanRecord.UpdatedAt perm < t \<longrightarrow> booleanRecord_update perm val t = (False, perm))
   \<and> (\<not> keyRecord.UpdatedAt keyRec < t \<longrightarrow> keyRecord_update keyRec k t = (False, keyRec))
   \<and> (resolve field = Some l \<and> \<not> leafUpdatedAt r l < Timestamp req \<and> carried req field \<longrightarrow>
        applyField r req field = Inr (False, r)
        \<and> applyFields r req (pre @ field # post) = applyFields r req (pre @ post))"
proof -
  have "settled r req field" if "resolve field = Some l" "\<not> leafUpdatedAt r l < Timestamp req"
    using that by (simp add: settled_def)
  then show ?thesis
    by (auto simp: booleanRecord_update_def keyRecord_update_def After_def
          applyField_rejected applyFields_drop_rejected)
qed

theorem rejected_update_changes_nothing_witness:
  "resolve ''encKey'' = Some LEncKey
   \<and> \<not> leafUpdatedAt exampleRecord LEncKey < Timestamp (exampleRequest [] 5)
   \<and> carried (exampleRequest [] 5) ''encKey''
   \<and> applyField exampleRecord (exampleRequest [] 5) ''encKey'' = Inr (False, exampleRecord)
   \<and> applyFields exampleRecord (exampleRequest [] 5) [''active'', ''encKey'', ''permissions.channel.add'']
       = applyFields exampleRecord (exampleRequest [] 5) [''active'', ''permissions.channel.add'']
   \<and> (case applyFields exampleRecord (exampleRequest [] 5) [''active'', ''permissions.channel.add''] of
         Inl p \<Rightarrow> False
       | Inr r' \<Rightarrow> leafUpdatedAt r' LActive = 5 \<and> leafUpdatedAt r' LChannelAdd = 5
                  \<and> leafUpdatedAt r' LEncKey = 10)"
proof -
  have h: "resolve ''encKey'' = Some LEncKey"
    "\<not> leafUpdatedAt exampleRecord LEncKey < Timestamp (exampleRequest [] 5)"
    "carried (exampleRequest [] 5) ''encKey''"
    by (simp_all add: resolve_def carried_def example_defs)
  have v: "case applyFields exampleRecord (exampleRequest [] 5) [''active'', ''permissions.channel.add''] of
         Inl p \<Rightarrow> False
       | Inr r' \<Rightarrow> leafUpdatedAt r' LActive = 5 \<and> leafUpdatedAt r' LChannelAdd = 5
                  \<and> leafUpdatedAt r' LEncKey = 10"
    by (simp add: example_defs engine_defs)
  from rejected_update_changes_nothing
         [where field = "''encKey''" and l = LEncKey and r = exampleRecord
            and req = "exampleRequest [] 5" and pre = "[''active'']"
            and post = "[''permissions.channel.add'']"] h v
  show ?thesis by simp
qed

section \<open>One timestamp for a request\<close>

text \<open>
  C10. Every path of a request is compared with and stamped by the one timestamp of the
  request. After \<open>applyUpdateRequest\<close> every leaf that was accepted has
  \<open>UpdatedAt = req.Timestamp\<close> and the value the request carries for it, every other
  leaf is as before, and no path is accepted twice, however often the request names it.
\<close>

theorem one_timestamp_per_request:
  "applyUpdateRequest r req = Inr r' \<Longrightarrow>
     \<exists>acc. acceptedFields r req (FieldsUpdated req) = Inr acc
       \<and> distinct acc
       \<and> set acc \<subseteq> set (FieldsUpdated req) \<inter> set recognizedPaths
       \<and> (\<forall>l. (pathOf l \<in> set acc \<longrightarrow>
                  leafUpdatedAt r' l = Timestamp req \<and> candidate req l = Some (leafValue r' l))
              \<and> (pathOf l \<notin> set acc \<longrightarrow>
                  leafUpdatedAt r' l = leafUpdatedAt r l \<and> leafValue r' l = leafValue r l))"
proof -
  assume "applyUpdateRequest r req = Inr r'"
  then have a: "applyFields r req (FieldsUpdated req) = Inr r'"
    by (simp add: applyUpdateRequest_def)
  from acceptedFields_defined [OF a] obtain acc
    where acc: "acceptedFields r req (FieldsUpdated req) = Inr acc" ..
  have "f \<in> set (FieldsUpdated req) \<inter> set recognizedPaths" if "f \<in> set acc" for f
  proof -
    from acceptedFields_fresh [OF acc that] have "\<not> settled r req f" "f \<in> set (FieldsUpdated req)"
      by simp_all
    moreover from \<open>\<not> settled r req f\<close> have "resolve f \<noteq> None"
      by (auto simp: settled_def split: option.splits)
    ultimately show ?thesis by (simp add: resolve_None_iff)
  qed
  then have "set acc \<subseteq> set (FieldsUpdated req) \<inter> set recognizedPaths" by blast
  with acc acceptedFields_distinct [OF acc] acceptedFields_final [OF a acc] show ?thesis by blast
qed

theorem one_timestamp_per_request_witness:
  "applyUpdateRequest exampleRecord
       (exampleRequest [''active'', ''nickname'', ''active'', ''permissions.user.add''] 12)
     = Inr exampleRecordMerged
   \<and> acceptedFields exampleRecord
       (exampleRequest [''active'', ''nickname'', ''active'', ''permissions.user.add''] 12)
       [''active'', ''nickname'', ''active'', ''permissions.user.add'']
     = Inr [''active'', ''permissions.user.add'']
   \<and> leafUpdatedAt exampleRecordMerged LActive = 12
   \<and> leafUpdatedAt exampleRecordMerged (LUser RefAdd) = 12
   \<and> leafUpdatedAt exampleRecordMerged LEncKey = leafUpdatedAt exampleRecord LEncKey"
proof -
  let ?req = "exampleRequest [''active'', ''nickname'', ''active'', ''permissions.user.add''] 12"
  have h: "applyUpdateRequest exampleRecord ?req = Inr exampleRecordMerged"
    by (simp add: example_defs engine_defs)
  have acc: "acceptedFields exampleRecord ?req
       [''active'', ''nickname'', ''active'', ''permissions.user.add'']
     = Inr [''active'', ''permissions.user.add'']"
    by (simp add: example_defs engine_defs)
  have fs: "FieldsUpdated ?req = [''active'', ''nickname'', ''active'', ''permissions.user.add'']"
    by (simp add: exampleRequest_def)
  from one_timestamp_per_request [OF h] acc fs
  have "\<forall>l. (pathOf l \<in> set [''active'', ''permissions.user.add''] \<longrightarrow>
                  leafUpdatedAt exampleRecordMerged l = Timestamp ?req)
              \<and> (pathOf l \<notin> set [''active'', ''permissions.user.add''] \<longrightarrow>
                  leafUpdatedAt exampleRecordMerged l = leafUpdatedAt exampleRecord l)"
    by simp
  from this [rule_format, of LActive] this [rule_format, of "LUser RefAdd"] this [rule_format, of LEncKey]
  have "leafUpdatedAt exampleRecordMerged LActive = 12
   \<and> leafUpdatedAt exampleRecordMerged (LUser RefAdd) = 12
   \<and> leafUpdatedAt exampleRecordMerged LEncKey = leafUpdatedAt exampleRecord LEncKey"
    by (simp add: exampleRequest_def)
  with h acc show ?thesis by simp
qed

section \<open>Reading a public key\<close>

text \<open>
  C4. What \<open>StringToAsymKey\<close> does on an input that is not the PEM/PKIX encoding of an
  RSA public key. When no PEM block is found, and when the block is not a PKIX public key,
  it returns an error and no key. When the block is a valid PKIX encoding of a key of
  another type, it does not return an error: \<open>err\<close> is nil there, and building the
  message with \<open>err.Error()\<close> panics.
\<close>

theorem StringToAsymKey_outcomes:
  "(pemDecode lib s = None \<longrightarrow>
      StringToAsymKey lib s = Inr (None, Some ''failed to parse PEM block containing the public key''))
   \<and> (pemDecode lib s = Some block \<and> parsePKIXPublicKey lib (Bytes block) = (pub, Some message) \<longrightarrow>
      StringToAsymKey lib s = Inr (None, Some (''failed to parse DER encoded public key: '' @ message)))
   \<and> (pemDecode lib s = Some block \<and> parsePKIXPublicKey lib (Bytes block) = (pub, None) \<and> \<not> isRSA pub \<longrightarrow>
      StringToAsymKey lib s = Inl NilPointerDereference)"
  by (auto simp: StringToAsymKey_def isRSA_def split: option.splits publicKey.splits)

theorem StringToAsymKey_outcomes_witness:
  "StringToAsymKey exampleStdlib ''garbage''
     = Inr (None, Some ''failed to parse PEM block containing the public key'')
   \<and> StringToAsymKey exampleStdlib ''PEM:junk''
     = Inr (None, Some ''failed to parse DER encoded public key: asn1: syntax error'')
   \<and> pemDecode exampleStdlib ''PEM:ed25519''
     = Some \<lparr>Type = ''RSA PUBLIC KEY'', Headers = [], Bytes = ''ed25519''\<rparr>
   \<and> parsePKIXPublicKey exampleStdlib ''ed25519'' = (Some (Ed25519PublicKey ''k''), None)
   \<and> StringToAsymKey exampleStdlib ''PEM:ed25519'' = Inl NilPointerDereference"
  using StringToAsymKey_outcomes [of exampleStdlib "''garbage''"]
        StringToAsymKey_outcomes
          [of exampleStdlib "''PEM:junk''" "\<lparr>Type = ''RSA PUBLIC KEY'', Headers = [], Bytes = ''junk''\<rparr>"
              None "''asn1: syntax error''"]
        StringToAsymKey_outcomes
          [of exampleStdlib "''PEM:ed25519''"
              "\<lparr>Type = ''RSA PUBLIC KEY'', Headers = [], Bytes = ''ed25519''\<rparr>"
              "Some (Ed25519PublicKey ''k'')"]
  by (simp add: exampleStdlib_def isRSA_def)

section \<open>Writing and reading a public key\<close>

text \<open>
  C9. \<open>AsymKeyToString\<close> returns the PEM encoding of a block with the label
  \<open>RSA PUBLIC KEY\<close> whose bytes are the PKIX encoding of the key, and
  \<open>StringToAsymKey\<close> applied to that string returns the key and no error. The standard
  library enters through what it guarantees for the key: \<open>x509.MarshalPKIXPublicKey\<close>
  succeeds, \<open>pem.Decode\<close> reads back what \<open>pem.EncodeToMemory\<close> wrote, and
  \<open>x509.ParsePKIXPublicKey\<close> reads back what \<open>x509.MarshalPKIXPublicKey\<close> wrote.
\<close>

theorem AsymKey_roundtrip:
  assumes "marshalPKIXPublicKey lib (RSAPublicKey key) = (der, None)"
    and "pemDecode lib (pemEncodeToMemory lib \<lparr>Type = ''RSA PUBLIC KEY'', Headers = [], Bytes = der\<rparr>)
           = Some \<lparr>Type = ''RSA PUBLIC KEY'', Headers = [], Bytes = der\<rparr>"
    and "parsePKIXPublicKey lib der = (Some (RSAPublicKey key), None)"
  shows "AsymKeyToString lib key
           = pemEncodeToMemory lib \<lparr>Type = ''RSA PUBLIC KEY'', Headers = [], Bytes = der\<rparr>
         \<and> StringToAsymKey lib (AsymKeyToString lib key) = Inr (Some key, None)"
  using assms by (simp add: AsymKeyToString_def StringToAsymKey_def)

theorem AsymKey_roundtrip_witness:
  "AsymKeyToString exampleStdlib \<lparr>N = 15, E = 3\<rparr> = ''PEM:rsa-15-3''
   \<and> StringToAsymKey exampleStdlib (AsymKeyToString exampleStdlib \<lparr>N = 15, E = 3\<rparr>)
       = Inr (Some \<lparr>N = 15, E = 3\<rparr>, None)"
proof -
  have m: "marshalPKIXPublicKey exampleStdlib (RSAPublicKey \<lparr>N = 15, E = 3\<rparr>) = (''rsa-15-3'', None)"
    by (simp add: exampleStdlib_def)
  have d: "pemDecode exampleStdlib
             (pemEncodeToMemory exampleStdlib
                \<lparr>Type = ''RSA PUBLIC KEY'', Headers = [], Bytes = ''rsa-15-3''\<rparr>)
           = Some \<lparr>Type = ''RSA PUBLIC KEY'', Headers = [], Bytes = ''rsa-15-3''\<rparr>"
    by (simp add: exampleStdlib_def)
  have p: "parsePKIXPublicKey exampleStdlib ''rsa-15-3'' = (Some (RSAPublicKey \<lparr>N = 15, E = 3\<rparr>), None)"
    by (simp add: exampleStdlib_def)
  have e: "pemEncodeToMemory exampleStdlib
             \<lparr>Type = ''RSA PUBLIC KEY'', Headers = [], Bytes = ''rsa-15-3''\<rparr> = ''PEM:rsa-15-3''"
    by (simp add: exampleStdlib_def)
  from AsymKey_roundtrip [OF m d p] show ?thesis unfolding e .
qed

section \<open>Sealing a temporary envelope\<close>

text \<open>
  C3, as the code has it. The sealing function takes one recipient key (it generates one
  when given none) and returns it. It builds a challenges map with exactly one entry: the
  key is the base64 text of the symmetric key encrypted to the recipient's public key, the
  value the base64 text of the challenge encrypted with the symmetric key and the nonce.
  It then hands the map to \<open>modifyChallenges\<close>, and the envelope carries the map as the
  hook leaves it; when the hook leaves the map alone, the envelope has that one entry.
\<close>

theorem sealed_challenges:
  "snd (GenerateTemporaryEncryptedOperationWithEncryption lib rnd plainPayload plaintextChallenge
          modifyChallenges recipientKey) = recipientOf rnd recipientKey
   \<and> Challenges (Encryption (fst (GenerateTemporaryEncryptedOperationWithEncryption lib rnd plainPayload
          plaintextChallenge modifyChallenges recipientKey)))
       = modifyChallenges
           [challengeKey lib rnd (PublicKey (recipientOf rnd recipientKey))
              \<mapsto> challengeValue lib rnd plaintextChallenge]
   \<and> (modifyChallenges
          [challengeKey lib rnd (PublicKey (recipientOf rnd recipientKey))
             \<mapsto> challengeValue lib rnd plaintextChallenge]
        = [challengeKey lib rnd (PublicKey (recipientOf rnd recipientKey))
             \<mapsto> challengeValue lib rnd plaintextChallenge] \<longrightarrow>
        dom (Challenges (Encryption (fst (GenerateTemporaryEncryptedOperationWithEncryption lib rnd
               plainPayload plaintextChallenge modifyChallenges recipientKey))))
          = {challengeKey lib rnd (PublicKey (recipientOf rnd recipientKey))}
        \<and> Challenges (Encryption (fst (GenerateTemporaryEncryptedOperationWithEncryption lib rnd
               plainPayload plaintextChallenge modifyChallenges recipientKey)))
             (challengeKey lib rnd (PublicKey (recipientOf rnd recipientKey)))
          = Some (challengeValue lib rnd plaintextChallenge))"
  by (simp add: GenerateTemporaryEncryptedOperationWithEncryption_def
        GenerateTemporaryEncryptedOperation_def recipientOf_def challengeKey_def challengeValue_def
        Let_def)

theorem sealed_challenges_witness:
  "snd (GenerateTemporaryEncryptedOperationWithEncryption exampleCore exampleEntropy ''payload''
          ''challenge'' (\<lambda>challenges. challenges) None) = freshKey exampleEntropy
   \<and> dom (Challenges (Encryption (fst (GenerateTemporaryEncryptedOperationWithEncryption exampleCore
            exampleEntropy ''payload'' ''challenge'' (\<lambda>challenges. challenges) None))))
       = {''b64:yek''}
   \<and> Challenges (Encryption (fst (GenerateTemporaryEncryptedOperationWithEncryption exampleCore
            exampleEntropy ''payload'' ''challenge'' (\<lambda>challenges. challenges) None))) ''b64:yek''
       = Some ''b64:keynoncechallenge''"
  using sealed_challenges [of exampleCore exampleEntropy "''payload''" "''challenge''"
          "\<lambda>challenges. challenges" None]
  by (simp add: exampleCore_def exampleEntropy_def recipientOf_def challengeKey_def challengeValue_def)

text \<open>
  The claim as stated, one entry per intended recipient, fails for other hooks: a hook that
  adds the entry \<open>random \<mapsto> test\<close> gives a map with two entries for one recipient, one
  of them not an encryption of the key, and a hook that empties the map gives none.
\<close>

theorem sealed_challenges_counterexample:
  "dom (Challenges (Encryption (fst (GenerateTemporaryEncryptedOperationWithEncryption exampleCore
          exampleEntropy ''payload'' ''challenge''
          (\<lambda>challenges. challenges(''random'' \<mapsto> ''test'')) None))))
     = {''random'', ''b64:yek''}
   \<and> card {''random'', ''b64:yek''} = 2
   \<and> challengeKey exampleCore exampleEntropy (PublicKey (freshKey exampleEntropy)) = ''b64:yek''
   \<and> dom (Challenges (Encryption (fst (GenerateTemporaryEncryptedOperationWithEncryption exampleCore
          exampleEntropy ''payload'' ''challenge'' (\<lambda>challenges. Map.empty) None)))) = {}"
  by (simp add: GenerateTemporaryEncryptedOperationWithEncryption_def
        GenerateTemporaryEncryptedOperation_def exampleCore_def exampleEntropy_def challengeKey_def
        Let_def)

end
